theory Spec2Isabelle
  imports Main
begin

section \<open>Go strings and the string functions of the standard library\<close>

text \<open>
  A Go \<open>string\<close> is a sequence of bytes; it is modelled as an Isabelle \<open>string\<close>, whose
  characters are 8-bit. A \<open>rune\<close> is a code point, an \<open>int32\<close> in Go and an integer
  here (no arithmetic of the code leaves the range).
\<close>

type_synonym rune = int

definition RuneError :: rune where
  "RuneError = 0xFFFD"

definition MaxASCII :: rune where
  "MaxASCII = 0x7F"

text \<open>
  \<open>utf8.DecodeRuneInString\<close>: the first rune of \<open>s\<close> and its width in bytes. The tables
  \<open>first\<close> and \<open>acceptRanges\<close> of package \<open>utf8\<close> are written out: a first byte below
  \<open>0x80\<close> is itself, a first byte in \<open>0x80..0xC1\<close> or above \<open>0xF4\<close> is invalid, the
  size is 2, 3 or 4 for a first byte from \<open>0xC2\<close>, \<open>0xE0\<close>, \<open>0xF0\<close>, and the second
  byte has the narrowed range after \<open>0xE0\<close>, \<open>0xED\<close>, \<open>0xF0\<close> and \<open>0xF4\<close>. Every
  failure yields \<open>(RuneError, 1)\<close>, the empty string \<open>(RuneError, 0)\<close>. The masks
  \<open>& 0x1F\<close>, \<open>& 0x0F\<close>, \<open>& 0x07\<close>, \<open>& 0x3F\<close> are \<open>mod\<close>, the shifts products.
\<close>

definition DecodeRuneInString :: "string \<Rightarrow> rune \<times> nat" where
  "DecodeRuneInString s =
     (case s of
        [] \<Rightarrow> (RuneError, 0)
      | c0 # _ \<Rightarrow>
         (let s0 = (of_char c0 :: int) in
          if s0 < 0x80 then (s0, 1)
          else if s0 < 0xC2 \<or> 0xF4 < s0 then (RuneError, 1)
          else
            (let sz = (if s0 < 0xE0 then 2 else if s0 < 0xF0 then 3 else 4 :: nat);
                 lo = (if s0 = 0xE0 then 0xA0 else if s0 = 0xF0 then 0x90 else 0x80 :: int);
                 hi = (if s0 = 0xED then 0x9F else if s0 = 0xF4 then 0x8F else 0xBF :: int)
             in
             if length s < sz then (RuneError, 1)
             else
               (let s1 = (of_char (s ! 1) :: int) in
                if s1 < lo \<or> hi < s1 then (RuneError, 1)
                else if sz \<le> 2 then ((s0 mod 32) * 64 + s1 mod 64, 2)
                else
                  (let s2 = (of_char (s ! 2) :: int) in
                   if s2 < 0x80 \<or> 0xBF < s2 then (RuneError, 1)
                   else if sz \<le> 3 then
                     ((s0 mod 16) * 4096 + (s1 mod 64) * 64 + s2 mod 64, 3)
                   else
                     (let s3 = (of_char (s ! 3) :: int) in
                      if s3 < 0x80 \<or> 0xBF < s3 then (RuneError, 1)
                      else
                        ((s0 mod 8) * 262144 + (s1 mod 64) * 4096 + (s2 mod 64) * 64
                           + s3 mod 64, 4)))))))"

lemma DecodeRuneInString_width:
  "s \<noteq> [] \<Longrightarrow> 1 \<le> snd (DecodeRuneInString s) \<and> snd (DecodeRuneInString s) \<le> length s"
  by (cases s) (auto simp: DecodeRuneInString_def Let_def Suc_le_eq split: if_splits)

text \<open>
  \<open>for i, r := range s\<close>: the runes of \<open>s\<close> in order, each with the bytes it was decoded
  from (an invalid byte is the rune \<open>RuneError\<close>, one byte wide).
\<close>

function chunks :: "string \<Rightarrow> (rune \<times> string) list" where
  "chunks s =
     (if s = [] then []
      else (fst (DecodeRuneInString s), take (snd (DecodeRuneInString s)) s)
             # chunks (drop (snd (DecodeRuneInString s)) s))"
  by pat_completeness auto
termination
proof (relation "measure length")
  show "wf (measure length)" by simp
next
  fix s :: string
  assume "s \<noteq> []"
  then have "1 \<le> snd (DecodeRuneInString s)"
    using DecodeRuneInString_width by blast
  with \<open>s \<noteq> []\<close> show "(drop (snd (DecodeRuneInString s)) s, s) \<in> measure length"
    by (cases s) auto
qed

declare chunks.simps [simp del]

definition runes :: "string \<Rightarrow> rune list" where
  "runes s = map fst (chunks s)"

text \<open>
  \<open>utf8.EncodeRune\<close>, as \<open>strings.Builder.WriteRune\<close> and the conversion \<open>string(rs)\<close>
  use it: one to four bytes, and the encoding of \<open>RuneError\<close> for a surrogate, a value
  above \<open>0x10FFFF\<close> or a negative value.
\<close>

definition encode3 :: "rune \<Rightarrow> string" where
  "encode3 r = [char_of (0xE0 + r div 4096), char_of (0x80 + (r div 64) mod 64),
                char_of (0x80 + r mod 64)]"

definition EncodeRune :: "rune \<Rightarrow> string" where
  "EncodeRune r =
     (if r < 0 then encode3 RuneError
      else if r \<le> 0x7F then [char_of r]
      else if r \<le> 0x7FF then [char_of (0xC0 + r div 64), char_of (0x80 + r mod 64)]
      else if 0x10FFFF < r \<or> (0xD800 \<le> r \<and> r \<le> 0xDFFF) then encode3 RuneError
      else if r \<le> 0xFFFF then encode3 r
      else [char_of (0xF0 + r div 262144), char_of (0x80 + (r div 4096) mod 64),
            char_of (0x80 + (r div 64) mod 64), char_of (0x80 + r mod 64)])"

text \<open>\<open>strings.HasPrefix(s, p)\<close>.\<close>

fun HasPrefix :: "string \<Rightarrow> string \<Rightarrow> bool" where
  "HasPrefix s [] = True"
| "HasPrefix [] (p # ps) = False"
| "HasPrefix (c # s) (p # ps) = (c = p \<and> HasPrefix s ps)"

text \<open>\<open>strings.Contains(s, sub)\<close>: \<open>sub\<close> occurs in \<open>s\<close> as a contiguous run of bytes.\<close>

fun Contains :: "string \<Rightarrow> string \<Rightarrow> bool" where
  "Contains [] sub = (sub = [])"
| "Contains (c # s) sub = (HasPrefix (c # s) sub \<or> Contains s sub)"

text \<open>\<open>strings.HasSuffix\<close>, \<open>strings.TrimPrefix\<close>, \<open>strings.TrimSuffix\<close>.\<close>

definition HasSuffix :: "string \<Rightarrow> string \<Rightarrow> bool" where
  "HasSuffix s suffix = HasPrefix (rev s) (rev suffix)"

definition TrimPrefix :: "string \<Rightarrow> string \<Rightarrow> string" where
  "TrimPrefix s p = (if HasPrefix s p then drop (length p) s else s)"

definition TrimSuffix :: "string \<Rightarrow> string \<Rightarrow> string" where
  "TrimSuffix s suffix =
     (if HasSuffix s suffix then take (length s - length suffix) s else s)"

text \<open>
  \<open>strings.Trim(s, cutset)\<close> for a cutset of ASCII characters, which is how the code
  calls it: the leading and the trailing bytes that are in the cutset are removed.
\<close>

definition Trim :: "string \<Rightarrow> string \<Rightarrow> string" where
  "Trim s cutset =
     rev (dropWhile (\<lambda>c. c \<in> set cutset) (rev (dropWhile (\<lambda>c. c \<in> set cutset) s)))"

text \<open>
  \<open>strings.ReplaceAll(s, old, new)\<close>: the occurrences of \<open>old\<close> are replaced from left to
  right, without overlap. An empty \<open>old\<close> matches before every rune and at the end.
\<close>

function ReplaceAll :: "string \<Rightarrow> string \<Rightarrow> string \<Rightarrow> string" where
  "ReplaceAll s old new =
     (if old = [] then new @ concat (map (\<lambda>c. snd c @ new) (chunks s))
      else if s = [] then []
      else if HasPrefix s old then new @ ReplaceAll (drop (length old) s) old new
      else hd s # ReplaceAll (tl s) old new)"
  by pat_completeness auto
termination
  by (relation "measure (\<lambda>(s, old, new). length s)") (auto simp: neq_Nil_conv)

declare ReplaceAll.simps [simp del]

section \<open>Unicode tables and formatting of the standard library\<close>

text \<open>
  The general category of a code point. Package \<open>unicode\<close> decides \<open>IsUpper\<close>,
  \<open>IsPunct\<close>, \<open>IsSymbol\<close> and \<open>Is(So, r)\<close> by it.
\<close>

datatype gcat =
    Lu | Ll | Lt | Lm | Lo | Mn | Mc | Me | Nd | Nl | No
  | Pc | Pd | Ps | Pe | Pi | Pf | Po | Sm | Sc | Sk | So
  | Zs | Zl | Zp | Cc | Cf | Cs | Co | Cn

text \<open>
  What the standard library contributes beyond ASCII is a parameter of the model: the
  category and the lower-case mapping of the code points above \<open>0x7F\<close>, the text that
  the verb \<open>%q\<close> of \<open>fmt.Sprintf\<close> prints for a rune (\<open>strconv.QuoteRune\<close>) and for a
  string (\<open>strconv.Quote\<close>), and \<open>filepath.Clean\<close>. Every theorem below holds for all
  values of it.
\<close>

record golib =
  gcat_of :: "rune \<Rightarrow> gcat"
  to_lower :: "rune \<Rightarrow> rune"
  QuoteRune :: "rune \<Rightarrow> string"
  Quote :: "string \<Rightarrow> string"
  Clean :: "string \<Rightarrow> string"

text \<open>
  \<open>unicode.IsSpace\<close>: the property White_Space, which is a fixed list of code points.
\<close>

definition IsSpace :: "rune \<Rightarrow> bool" where
  "IsSpace r =
     ((0x09 \<le> r \<and> r \<le> 0x0D) \<or> r = 0x20 \<or> r = 0x85 \<or> r = 0xA0 \<or> r = 0x1680
      \<or> (0x2000 \<le> r \<and> r \<le> 0x200A) \<or> r = 0x2028 \<or> r = 0x2029 \<or> r = 0x202F
      \<or> r = 0x205F \<or> r = 0x3000)"

text \<open>The categories of the ASCII code points.\<close>

definition ascii_category :: "rune \<Rightarrow> gcat" where
  "ascii_category r =
     (if r < 0x20 \<or> r = 0x7F then Cc
      else if r = 0x20 then Zs
      else if 0x30 \<le> r \<and> r \<le> 0x39 then Nd
      else if 0x41 \<le> r \<and> r \<le> 0x5A then Lu
      else if 0x61 \<le> r \<and> r \<le> 0x7A then Ll
      else if r \<in> {0x28, 0x5B, 0x7B} then Ps
      else if r \<in> {0x29, 0x5D, 0x7D} then Pe
      else if r = 0x2D then Pd
      else if r = 0x5F then Pc
      else if r = 0x24 then Sc
      else if r \<in> {0x2B, 0x3C, 0x3D, 0x3E, 0x7C, 0x7E} then Sm
      else if r \<in> {0x5E, 0x60} then Sk
      else Po)"

text \<open>
  The category of a rune: fixed on ASCII and on the white-space code points above it
  (a control character, the line and the paragraph separator, and space separators),
  the parameter elsewhere.
\<close>

definition category :: "golib \<Rightarrow> rune \<Rightarrow> gcat" where
  "category L r =
     (if 0 \<le> r \<and> r \<le> 0x7F then ascii_category r
      else if IsSpace r then
        (if r = 0x85 then Cc else if r = 0x2028 then Zl else if r = 0x2029 then Zp else Zs)
      else gcat_of L r)"

definition IsUpper :: "golib \<Rightarrow> rune \<Rightarrow> bool" where
  "IsUpper L r = (category L r = Lu)"

definition IsLower :: "golib \<Rightarrow> rune \<Rightarrow> bool" where
  "IsLower L r = (category L r = Ll)"

definition IsDigit :: "golib \<Rightarrow> rune \<Rightarrow> bool" where
  "IsDigit L r = (category L r = Nd)"

definition IsPunct :: "golib \<Rightarrow> rune \<Rightarrow> bool" where
  "IsPunct L r = (category L r \<in> {Pc, Pd, Ps, Pe, Pi, Pf, Po})"

definition IsSymbol :: "golib \<Rightarrow> rune \<Rightarrow> bool" where
  "IsSymbol L r = (category L r \<in> {Sm, Sc, Sk, So})"

text \<open>\<open>unicode.Is(unicode.So, r)\<close>.\<close>

definition IsSo :: "golib \<Rightarrow> rune \<Rightarrow> bool" where
  "IsSo L r = (category L r = So)"

text \<open>\<open>unicode.ToLower\<close>.\<close>

definition ToLowerRune :: "golib \<Rightarrow> rune \<Rightarrow> rune" where
  "ToLowerRune L r =
     (if 0 \<le> r \<and> r \<le> 0x7F then (if 0x41 \<le> r \<and> r \<le> 0x5A then r + 32 else r)
      else to_lower L r)"

text \<open>
  \<open>strings.ToLower\<close>: a string of ASCII bytes has its letters \<open>A..Z\<close> lowered; any other
  string goes through \<open>strings.Map(unicode.ToLower, s)\<close>, which writes the encoding of
  the mapped rune for every rune of \<open>s\<close> (so an invalid byte becomes the encoding of
  \<open>RuneError\<close>).
\<close>

definition ToLower :: "golib \<Rightarrow> string \<Rightarrow> string" where
  "ToLower L s =
     (if list_all (\<lambda>c. (of_char c :: int) < 0x80) s
      then map (\<lambda>c. if 0x41 \<le> (of_char c :: int) \<and> (of_char c :: int) \<le> 0x5A
                      then char_of ((of_char c :: int) + 32) else c) s
      else concat (map (\<lambda>r. EncodeRune (ToLowerRune L r)) (runes s)))"

section \<open>Call-site classifier (package analyzer)\<close>

text \<open>\<open>isLogMethod\<close>: the method names that are log call entry points.\<close>

definition isLogMethod :: "string \<Rightarrow> bool" where
  "isLogMethod name = (name \<in> set
     [''Info'', ''Warn'', ''Error'', ''Debug'',
      ''Fatal'', ''Panic'', ''DPanic'',
      ''InfoCtx'', ''WarnCtx'', ''ErrorCtx'', ''DebugCtx'',
      ''InfoContext'', ''WarnContext'', ''ErrorContext'', ''DebugContext'',
      ''Print'', ''Printf'', ''Println'',
      ''Fatalf'', ''Fatalln'',
      ''Panicf'', ''Panicln''])"

definition supportedPkgPrefixes :: "string list" where
  "supportedPkgPrefixes =
     [''log/slog'', ''go.uber.org/zap'', ''go.uber.org/zap/zaptest'', ''log'']"

text \<open>
  \<open>isSupportedPackage\<close>: the loop over \<open>supportedPkgPrefixes\<close> returns true at the first
  entry that equals the path or, followed by a slash, is a prefix of it; after the loop
  the path is compared with \<open>log\<close>.
\<close>

fun matchPrefixes :: "string list \<Rightarrow> string \<Rightarrow> bool" where
  "matchPrefixes [] pkgPath = False"
| "matchPrefixes (pfx # rest) pkgPath =
     (if pkgPath = pfx \<or> HasPrefix pkgPath (pfx @ ''/'') then True
      else matchPrefixes rest pkgPath)"

definition isSupportedPackage :: "string \<Rightarrow> bool" where
  "isSupportedPackage pkgPath =
     (if matchPrefixes supportedPkgPrefixes pkgPath then True else pkgPath = ''log'')"

section \<open>Syntax trees and the analysis pass\<close>

text \<open>
  The expressions of package \<open>go/ast\<close>. The code distinguishes basic literals,
  identifiers, binary and parenthesised expressions, and the selector of a call; every
  other kind of node is \<open>OtherExpr\<close> with its children in the order in which \<open>ast.Walk\<close>
  visits them. An identifier carries its name and a number that stands for the identity
  of the node, the key of \<open>TypesInfo.Uses\<close>. A selector \<open>X.Sel\<close> has the expression \<open>X\<close>
  and the identifier \<open>Sel\<close>; a call has its function and its arguments.
\<close>

datatype kind = INT_kind | FLOAT | IMAG | CHAR | STRING

datatype optoken = ADD | OtherOp

datatype expr =
    BasicLit kind string
  | Ident string nat
  | BinaryExpr expr optoken expr
  | ParenExpr expr
  | SelectorExpr expr string nat
  | CallExpr expr "expr list"
  | OtherExpr "expr list"

text \<open>
  A \<open>types.Object\<close>: the package that declares it (\<open>None\<close> when \<open>Pkg()\<close> is nil) and, for
  a \<open>*types.Const\<close>, the text \<open>Val().String()\<close> of its value.
\<close>

record object =
  Pkg :: "string option"
  ConstVal :: "string option"

record position =
  Filename :: string
  Line :: nat

definition IsValid :: "position \<Rightarrow> bool" where
  "IsValid p = (0 < Line p)"

text \<open>
  The part of \<open>analysis.Pass\<close> that the code reads: \<open>TypesInfo.Uses\<close>, the positions
  \<open>Pos()\<close> and \<open>End()\<close> of a node, \<open>Fset.Position\<close>, \<open>Fset.File\<close> (a \<open>token.File\<close> is
  its function \<open>Offset\<close>) and the positions \<open>Pos()\<close> of the files in \<open>Files\<close>.
\<close>

record pass =
  Uses :: "nat \<rightharpoonup> object"
  NodePos :: "expr \<Rightarrow> nat"
  NodeEnd :: "expr \<Rightarrow> nat"
  Position :: "nat \<Rightarrow> position"
  File :: "nat \<Rightarrow> (nat \<Rightarrow> nat) option"
  Files :: "nat list"

record logCall =
  pos :: nat
  msgArg :: expr
  msgLiteral :: string
  fullExpr :: string

text \<open>\<open>pkgPathOf\<close>; \<open>None\<close> is the nil object.\<close>

definition pkgPathOf :: "object option \<Rightarrow> string" where
  "pkgPathOf obj =
     (case obj of None \<Rightarrow> []
      | Some ob \<Rightarrow> (case Pkg ob of None \<Rightarrow> [] | Some path \<Rightarrow> path))"

text \<open>\<open>isSupportedLogMethod\<close>, on the name and the identity of the selector's \<open>Sel\<close>.\<close>

definition isSupportedLogMethod :: "pass \<Rightarrow> string \<Rightarrow> nat \<Rightarrow> bool" where
  "isSupportedLogMethod p method sel =
     (if \<not> isLogMethod method then False
      else (case Uses p sel of
              None \<Rightarrow> False
            | Some obj \<Rightarrow> isSupportedPackage (pkgPathOf (Some obj))))"

definition messageArgIndex :: "pass \<Rightarrow> expr \<Rightarrow> expr list \<Rightarrow> int" where
  "messageArgIndex p sel args = 0"

section \<open>Message resolver\<close>

text \<open>
  The string-literal case of \<open>collectStringParts\<close>: the trimming of the delimiters and
  the four replacements, in the order of the code.
\<close>

definition unquoteLit :: "string \<Rightarrow> string" where
  "unquoteLit v =
     (let s = Trim v [CHR 0x60];
          s = TrimPrefix s [CHR 0x22];
          s = TrimSuffix s [CHR 0x22];
          s = ReplaceAll s [CHR 0x5C, CHR 0x22] [CHR 0x22];
          s = ReplaceAll s [CHR 0x5C, CHR 0x5C] [CHR 0x5C];
          s = ReplaceAll s [CHR 0x5C, CHR ''n''] [CHR 0x0A];
          s = ReplaceAll s [CHR 0x5C, CHR ''t''] [CHR 0x09]
      in s)"

text \<open>
  \<open>collectStringParts\<close>; the slice \<open>*parts\<close> that the code appends to is passed in and
  returned.
\<close>

fun collectStringParts :: "pass \<Rightarrow> expr \<Rightarrow> string list \<Rightarrow> string list" where
  "collectStringParts p (BasicLit k v) parts =
     (if k = STRING then parts @ [unquoteLit v] else parts)"
| "collectStringParts p (BinaryExpr x op y) parts =
     (if op = ADD then collectStringParts p y (collectStringParts p x parts) else parts)"
| "collectStringParts p (Ident name i) parts =
     (case Uses p i of
        None \<Rightarrow> parts
      | Some obj \<Rightarrow>
          (case ConstVal obj of
             None \<Rightarrow> parts
           | Some val \<Rightarrow> parts @ [Trim val [CHR 0x22]]))"
| "collectStringParts p (ParenExpr x) parts = collectStringParts p x parts"
| "collectStringParts p (SelectorExpr x name i) parts = parts"
| "collectStringParts p (CallExpr f args) parts = parts"
| "collectStringParts p (OtherExpr es) parts = parts"

text \<open>
  \<open>sourceFragment\<close>: the loop over \<open>pass.Files\<close> skips the files of another name and
  returns at the first file of this name.
\<close>

fun sourceFragment_loop :: "golib \<Rightarrow> pass \<Rightarrow> nat list \<Rightarrow> string \<Rightarrow> nat \<Rightarrow> nat \<Rightarrow> string"
where
  "sourceFragment_loop L p [] filename from to = []"
| "sourceFragment_loop L p (f # fs) filename from to =
     (if Clean L (Filename (Position p f)) \<noteq> Clean L filename
      then sourceFragment_loop L p fs filename from to
      else (case File p f of
              None \<Rightarrow> []
            | Some offset \<Rightarrow> (let start = offset from; end = offset to in [])))"

definition sourceFragment :: "golib \<Rightarrow> pass \<Rightarrow> string \<Rightarrow> nat \<Rightarrow> nat \<Rightarrow> string" where
  "sourceFragment L p filename from to = sourceFragment_loop L p (Files p) filename from to"

text \<open>
  \<open>ast.Inspect\<close> with the function of \<open>exprToString\<close>, which always returns true: the
  node is visited, then its children in the order of \<open>ast.Walk\<close>. The function writes
  the \<open>Value\<close> of a basic literal and the \<open>Name\<close> of an identifier to the builder, whose
  content is passed in and returned.
\<close>

fun inspect_write :: "expr \<Rightarrow> string \<Rightarrow> string"
  and inspect_write_list :: "expr list \<Rightarrow> string \<Rightarrow> string" where
  "inspect_write (BasicLit k v) sb = sb @ v"
| "inspect_write (Ident name i) sb = sb @ name"
| "inspect_write (BinaryExpr x op y) sb = inspect_write y (inspect_write x sb)"
| "inspect_write (ParenExpr x) sb = inspect_write x sb"
| "inspect_write (SelectorExpr x name i) sb = inspect_write x sb @ name"
| "inspect_write (CallExpr f args) sb = inspect_write_list args (inspect_write f sb)"
| "inspect_write (OtherExpr es) sb = inspect_write_list es sb"
| "inspect_write_list [] sb = sb"
| "inspect_write_list (e # es) sb = inspect_write_list es (inspect_write e sb)"

text \<open>\<open>exprToString\<close>; \<open>None\<close> is the nil expression.\<close>

definition exprToString :: "golib \<Rightarrow> pass \<Rightarrow> expr option \<Rightarrow> string" where
  "exprToString L p expr =
     (case expr of
        None \<Rightarrow> []
      | Some e \<Rightarrow>
          (let start = Position p (NodePos p e);
               end = Position p (NodeEnd p e);
               src = (if IsValid start \<and> IsValid end \<and> Filename start = Filename end
                      then sourceFragment L p (Filename start) (NodePos p e) (NodeEnd p e)
                      else [])
           in if src \<noteq> [] then src else inspect_write e []))"

text \<open>\<open>extractStringValue\<close>; \<open>strings.Join(parts, "")\<close> is \<open>concat\<close>.\<close>

definition extractStringValue :: "golib \<Rightarrow> pass \<Rightarrow> expr \<Rightarrow> string \<times> string" where
  "extractStringValue L p e =
     (let full = exprToString L p (Some e);
          parts = collectStringParts p e [];
          literal = concat parts
      in (literal, full))"

text \<open>
  \<open>extractLogCall\<close> on a call expression \<open>CallExpr f args\<close>; \<open>None\<close> is the result
  \<open>(logCall{}, false)\<close>. The code reads \<open>call.Args[msgIdx]\<close> after its bounds check
  only, and so does the model.
\<close>

definition extractLogCall :: "golib \<Rightarrow> pass \<Rightarrow> expr \<Rightarrow> expr list \<Rightarrow> logCall option" where
  "extractLogCall L p f args =
     (case f of
        SelectorExpr x method sel \<Rightarrow>
          (if \<not> isSupportedLogMethod p method sel then None
           else
             (let msgIdx = messageArgIndex p f args in
              if msgIdx < 0 \<or> msgIdx \<ge> int (length args) then None
              else
                (let arg = args ! nat msgIdx;
                     (literal, full) = extractStringValue L p arg
                 in Some \<lparr>pos = NodePos p (CallExpr f args), msgArg = arg,
                           msgLiteral = literal, fullExpr = full\<rparr>)))
      | _ \<Rightarrow> None)"

section \<open>Reference notions and example values\<close>

text \<open>
  The nodes of an expression in depth-first preorder, as \<open>ast.Inspect\<close> meets them;
  the identifier \<open>Sel\<close> of a selector is a node after the subtree of \<open>X\<close>.
\<close>

fun preorder :: "expr \<Rightarrow> expr list" where
  "preorder (BasicLit k v) = [BasicLit k v]"
| "preorder (Ident name i) = [Ident name i]"
| "preorder (BinaryExpr x op y) = BinaryExpr x op y # preorder x @ preorder y"
| "preorder (ParenExpr x) = ParenExpr x # preorder x"
| "preorder (SelectorExpr x name i) = SelectorExpr x name i # preorder x @ [Ident name i]"
| "preorder (CallExpr f args) = CallExpr f args # preorder f @ concat (map preorder args)"
| "preorder (OtherExpr es) = OtherExpr es # concat (map preorder es)"

text \<open>The text of one node: of any basic literal and of an identifier.\<close>

fun node_text :: "expr \<Rightarrow> string" where
  "node_text (BasicLit k v) = v"
| "node_text (Ident name i) = name"
| "node_text e = []"

text \<open>
  The text of one node in the words of the specification: of a string literal and of an
  identifier.
\<close>

fun string_ident_text :: "expr \<Rightarrow> string" where
  "string_ident_text (BasicLit k v) = (if k = STRING then v else [])"
| "string_ident_text (Ident name i) = name"
| "string_ident_text e = []"

text \<open>
  A library to evaluate examples with: the Cyrillic letters \<open>U+0410..U+044F\<close> with
  their categories and lower-case mapping and every other code point above ASCII
  unassigned, \<open>%q\<close> as it prints text that needs no escape, and file names that are
  clean already.
\<close>

definition example_lib :: golib where
  "example_lib =
     \<lparr>gcat_of = (\<lambda>r. if 0x410 \<le> r \<and> r \<le> 0x42F then Lu
                      else if 0x430 \<le> r \<and> r \<le> 0x44F then Ll else Cn),
      to_lower = (\<lambda>r. if 0x410 \<le> r \<and> r \<le> 0x42F then r + 32 else r),
      QuoteRune = (\<lambda>r. [CHR 0x27] @ EncodeRune r @ [CHR 0x27]),
      Quote = (\<lambda>s. [CHR 0x22] @ s @ [CHR 0x22]),
      Clean = (\<lambda>s. s)\<rparr>"

text \<open>
  A pass over one file \<open>main.go\<close> in which the identifier number 1 is declared by
  \<open>log/slog\<close> and the identifier number 2 is a constant of value \<open>"boot"\<close>.
\<close>

definition example_pass :: pass where
  "example_pass =
     \<lparr>Uses = [1 \<mapsto> \<lparr>Pkg = Some ''log/slog'', ConstVal = None\<rparr>,
              2 \<mapsto> \<lparr>Pkg = Some ''main'', ConstVal = Some [CHR 0x22, CHR ''b'', CHR ''o'',
                                                          CHR ''o'', CHR ''t'', CHR 0x22]\<rparr>],
      NodePos = (\<lambda>e. 10), NodeEnd = (\<lambda>e. 20),
      Position = (\<lambda>n. \<lparr>Filename = ''main.go'', Line = 3\<rparr>),
      File = (\<lambda>n. Some (\<lambda>q. q)),
      Files = [1]\<rparr>"

section \<open>Trimming white space\<close>

text \<open>
  \<open>utf8.RuneStart\<close> and \<open>utf8.DecodeLastRuneInString\<close>. The loop of the latter looks for
  a start byte at the positions \<open>end - 2\<close>, \<open>end - 3\<close>, \<open>end - 4\<close>, as far as they exist,
  and is left with \<open>end - 5\<close>, or 0 when that is negative.
\<close>

definition RuneStart :: "char \<Rightarrow> bool" where
  "RuneStart b = (((of_char b :: int) div 64) mod 4 \<noteq> 2)"

definition DecodeLastRuneInString :: "string \<Rightarrow> rune \<times> nat" where
  "DecodeLastRuneInString s =
     (let end = length s in
      if end = 0 then (RuneError, 0)
      else if (of_char (s ! (end - 1)) :: int) < 0x80 then (of_char (s ! (end - 1)), 1)
      else
        (let start =
               (if 2 \<le> end \<and> RuneStart (s ! (end - 2)) then end - 2
                else if 3 \<le> end \<and> RuneStart (s ! (end - 3)) then end - 3
                else if 4 \<le> end \<and> RuneStart (s ! (end - 4)) then end - 4
                else end - 5);
             r = fst (DecodeRuneInString (drop start s));
             size = snd (DecodeRuneInString (drop start s))
         in if start + size \<noteq> end then (RuneError, 1) else (r, size)))"

lemma DecodeLastRuneInString_width:
  "s \<noteq> [] \<Longrightarrow>
     1 \<le> snd (DecodeLastRuneInString s) \<and> snd (DecodeLastRuneInString s) \<le> length s"
proof -
  assume ne: "s \<noteq> []"
  have w: "\<And>t. t \<noteq> [] \<Longrightarrow> 1 \<le> snd (DecodeRuneInString t)"
    using DecodeRuneInString_width by blast
  from ne have len: "1 \<le> length s" by (cases s) auto
  show ?thesis
  proof (cases "(of_char (s ! (length s - 1)) :: int) < 0x80")
    case True
    with len ne show ?thesis by (simp add: DecodeLastRuneInString_def Let_def)
  next
    case False
    define start where "start =
               (if 2 \<le> length s \<and> RuneStart (s ! (length s - 2)) then length s - 2
                else if 3 \<le> length s \<and> RuneStart (s ! (length s - 3)) then length s - 3
                else if 4 \<le> length s \<and> RuneStart (s ! (length s - 4)) then length s - 4
                else length s - 5)"
    have lt: "start < length s" using len by (auto simp: start_def)
    then have "drop start s \<noteq> []" by simp
    from w [OF this] have "1 \<le> snd (DecodeRuneInString (drop start s))" .
    then show ?thesis
      using False len ne lt
      by (auto simp: DecodeLastRuneInString_def Let_def start_def [symmetric])
  qed
qed

text \<open>
  \<open>strings.TrimLeftFunc\<close>: \<open>indexFunc\<close> finds the first rune that does not satisfy \<open>f\<close>,
  and the string from there on is returned, the empty string when there is none.
\<close>

function TrimLeftFunc :: "string \<Rightarrow> (rune \<Rightarrow> bool) \<Rightarrow> string" where
  "TrimLeftFunc s f =
     (if s = [] then []
      else if f (fst (DecodeRuneInString s))
        then TrimLeftFunc (drop (snd (DecodeRuneInString s)) s) f
      else s)"
  by pat_completeness auto
termination
proof (relation "measure (\<lambda>(s, f). length s)")
  show "wf (measure (\<lambda>(s, f). length s))" by simp
next
  fix s :: string and f :: "rune \<Rightarrow> bool"
  assume "s \<noteq> []"
  then have "1 \<le> snd (DecodeRuneInString s)"
    using DecodeRuneInString_width by blast
  with \<open>s \<noteq> []\<close>
  show "((drop (snd (DecodeRuneInString s)) s, f), (s, f)) \<in> measure (\<lambda>(s, f). length s)"
    by (cases s) auto
qed

declare TrimLeftFunc.simps [simp del]

text \<open>
  \<open>lastIndexFunc(s, f, false)\<close>: going back from the end, the index of the last rune
  that does not satisfy \<open>f\<close>; \<open>None\<close> is the result \<open>-1\<close>.
\<close>

function lastIndexFunc :: "string \<Rightarrow> (rune \<Rightarrow> bool) \<Rightarrow> nat option" where
  "lastIndexFunc s f =
     (if s = [] then None
      else if f (fst (DecodeLastRuneInString s))
        then lastIndexFunc (take (length s - snd (DecodeLastRuneInString s)) s) f
      else Some (length s - snd (DecodeLastRuneInString s)))"
  by pat_completeness auto
termination
proof (relation "measure (\<lambda>(s, f). length s)")
  show "wf (measure (\<lambda>(s, f). length s))" by simp
next
  fix s :: string and f :: "rune \<Rightarrow> bool"
  assume "s \<noteq> []"
  then have "1 \<le> snd (DecodeLastRuneInString s)"
    using DecodeLastRuneInString_width by blast
  with \<open>s \<noteq> []\<close>
  show "((take (length s - snd (DecodeLastRuneInString s)) s, f), (s, f))
          \<in> measure (\<lambda>(s, f). length s)"
    by (cases s) auto
qed

declare lastIndexFunc.simps [simp del]

text \<open>
  \<open>strings.TrimRightFunc\<close>: the string up to the end of the rune that \<open>lastIndexFunc\<close>
  found.
\<close>

definition TrimRightFunc :: "string \<Rightarrow> (rune \<Rightarrow> bool) \<Rightarrow> string" where
  "TrimRightFunc s f =
     (case lastIndexFunc s f of
        None \<Rightarrow> take 0 s
      | Some i \<Rightarrow>
          (if (of_char (s ! i) :: int) \<ge> 0x80
           then take (i + snd (DecodeRuneInString (drop i s))) s
           else take (i + 1) s))"

definition TrimFunc :: "string \<Rightarrow> (rune \<Rightarrow> bool) \<Rightarrow> string" where
  "TrimFunc s f = TrimRightFunc (TrimLeftFunc s f) f"

text \<open>The table \<open>asciiSpace\<close> of package \<open>strings\<close>.\<close>

definition asciiSpace :: "char \<Rightarrow> bool" where
  "asciiSpace c = ((of_char c :: int) \<in> {0x09, 0x0A, 0x0B, 0x0C, 0x0D, 0x20})"

text \<open>
  \<open>strings.TrimSpace\<close>: the ASCII white space is skipped from the start and then from
  the end; at the first byte from \<open>0x80\<close> on, the rest is left to \<open>TrimFunc\<close> and
  \<open>TrimRightFunc\<close> with \<open>unicode.IsSpace\<close>. The second loop runs on the reversed
  string.
\<close>

fun TrimSpace_stop :: "string \<Rightarrow> string" where
  "TrimSpace_stop [] = []"
| "TrimSpace_stop (c # r) =
     (if (of_char c :: int) \<ge> 0x80 then TrimRightFunc (rev (c # r)) IsSpace
      else if asciiSpace c then TrimSpace_stop r
      else rev (c # r))"

fun TrimSpace :: "string \<Rightarrow> string" where
  "TrimSpace [] = TrimSpace_stop []"
| "TrimSpace (c # s) =
     (if (of_char c :: int) \<ge> 0x80 then TrimFunc (c # s) IsSpace
      else if asciiSpace c then TrimSpace s
      else TrimSpace_stop (rev (c # s)))"

section \<open>Rule functions (package rules)\<close>

text \<open>\<open>CheckLowercase\<close>.\<close>

definition CheckLowercase :: "golib \<Rightarrow> string \<Rightarrow> string" where
  "CheckLowercase L msg0 =
     (let msg = TrimSpace msg0 in
      if msg = [] then []
      else
        (let r = fst (DecodeRuneInString msg) in
         if r = RuneError then []
         else if IsUpper L r then ''log message should start with a lowercase letter''
         else []))"

text \<open>\<open>CheckEnglish\<close> with \<open>isAllowedNonASCII\<close> and \<open>scriptName\<close>.\<close>

definition isAllowedNonASCII :: "rune \<Rightarrow> bool" where
  "isAllowedNonASCII r = (r \<in> {0x2013, 0x2014, 0x2018, 0x2019, 0x201C, 0x201D, 0x2026})"

definition scriptName :: "rune \<Rightarrow> string" where
  "scriptName r =
     (if r \<ge> 0x0400 \<and> r \<le> 0x04FF then ''Cyrillic''
      else if r \<ge> 0x4E00 \<and> r \<le> 0x9FFF then ''CJK''
      else if r \<ge> 0x0600 \<and> r \<le> 0x06FF then ''Arabic''
      else if r \<ge> 0x0900 \<and> r \<le> 0x097F then ''Devanagari''
      else if r \<ge> 0x1F300 \<and> r \<le> 0x1FAFF then ''Emoji''
      else ''non-Latin'')"

fun CheckEnglish_loop :: "golib \<Rightarrow> rune list \<Rightarrow> string" where
  "CheckEnglish_loop L [] = []"
| "CheckEnglish_loop L (r # rs) =
     (if r \<le> MaxASCII then CheckEnglish_loop L rs
      else if isAllowedNonASCII r then CheckEnglish_loop L rs
      else ''log message contains non-English characters ('' @ scriptName r
             @ '' script, rune '' @ QuoteRune L r @ '')'')"

definition CheckEnglish :: "golib \<Rightarrow> string \<Rightarrow> string" where
  "CheckEnglish L msg = CheckEnglish_loop L (runes msg)"

text \<open>
  \<open>CheckSpecialChars\<close>. The constant \<open>defaultForbiddenASCII\<close> holds the characters
  \<open>! @ # $ % ^ & * + = |\<close>, the backslash, \<open>< > ?\<close>, the backtick, \<open>~ ;\<close> and the two
  quotes. A \<open>map[rune]struct{}\<close> is a set of runes.
\<close>

definition defaultForbiddenASCII :: string where
  "defaultForbiddenASCII =
     ''!@#$%^&*+=|'' @ [CHR 0x5C] @ ''<>?'' @ [CHR 0x60] @ ''~;'' @ [CHR 0x27, CHR 0x22]"

definition buildForbiddenSet :: "string \<Rightarrow> rune set" where
  "buildForbiddenSet allowedExtra =
     (let allowed = set (runes allowedExtra)
      in set (filter (\<lambda>r. r \<notin> allowed) (runes defaultForbiddenASCII)))"

definition isEmoji :: "golib \<Rightarrow> rune \<Rightarrow> bool" where
  "isEmoji L r =
     (IsSo L r \<or> (r \<ge> 0x1F300 \<and> r \<le> 0x1FAFF) \<or> (r \<ge> 0x2600 \<and> r \<le> 0x27BF)
      \<or> (r \<ge> 0xFE00 \<and> r \<le> 0xFE0F))"

text \<open>The three results of \<open>fmt.Sprintf\<close> in the rule.\<close>

definition emojiDiag :: "golib \<Rightarrow> rune \<Rightarrow> string" where
  "emojiDiag L r =
     ''log message contains emoji or special Unicode symbol (rune '' @ QuoteRune L r @ '')''"

definition forbiddenDiag :: "golib \<Rightarrow> rune \<Rightarrow> string" where
  "forbiddenDiag L r = ''log message contains forbidden special character '' @ QuoteRune L r"

definition repeatedDiag :: "golib \<Rightarrow> string \<Rightarrow> string" where
  "repeatedDiag L seq = ''log message contains repeated punctuation '' @ Quote L seq"

fun checkRepeatedPunctuation_loop :: "golib \<Rightarrow> string list \<Rightarrow> string \<Rightarrow> string" where
  "checkRepeatedPunctuation_loop L [] msg = []"
| "checkRepeatedPunctuation_loop L (seq # seqs) msg =
     (if Contains msg seq then repeatedDiag L seq
      else checkRepeatedPunctuation_loop L seqs msg)"

definition checkRepeatedPunctuation :: "golib \<Rightarrow> string \<Rightarrow> string" where
  "checkRepeatedPunctuation L msg =
     checkRepeatedPunctuation_loop L [''...'', ''!!'', ''??'', ''***''] msg"

text \<open>
  The loop over the runes of the message; \<open>Some\<close> is a \<open>return\<close> inside the loop,
  \<open>None\<close> its end.
\<close>

fun CheckSpecialChars_loop :: "golib \<Rightarrow> rune set \<Rightarrow> rune list \<Rightarrow> string option" where
  "CheckSpecialChars_loop L forbidden [] = None"
| "CheckSpecialChars_loop L forbidden (r # rs) =
     (if isEmoji L r then Some (emojiDiag L r)
      else if ((r \<le> MaxASCII \<and> IsPunct L r) \<or> IsSymbol L r) \<and> r \<in> forbidden
        then Some (forbiddenDiag L r)
      else CheckSpecialChars_loop L forbidden rs)"

definition CheckSpecialChars :: "golib \<Rightarrow> string \<Rightarrow> string \<Rightarrow> string" where
  "CheckSpecialChars L msg allowedExtra =
     (let forbidden = buildForbiddenSet allowedExtra in
      case CheckSpecialChars_loop L forbidden (runes msg) of
        Some diag \<Rightarrow> diag
      | None \<Rightarrow>
          (let diag = checkRepeatedPunctuation L msg in
           if diag \<noteq> [] then diag else []))"

text \<open>
  \<open>strings.FieldsFunc\<close>: the loop over the runes of \<open>s\<close> keeps the start of the open
  span, here the bytes of the span so far (\<open>None\<close> is a negative \<open>start\<close>); a span is
  closed by a rune that satisfies \<open>f\<close> and by the end of the string.
\<close>

fun FieldsFunc_loop :: "(rune \<Rightarrow> bool) \<Rightarrow> (rune \<times> string) list \<Rightarrow> string option \<Rightarrow> string list"
where
  "FieldsFunc_loop f [] span = (case span of None \<Rightarrow> [] | Some w \<Rightarrow> [w])"
| "FieldsFunc_loop f (c # cs) span =
     (if f (fst c)
      then (case span of
              Some w \<Rightarrow> w # FieldsFunc_loop f cs None
            | None \<Rightarrow> FieldsFunc_loop f cs None)
      else (case span of
              None \<Rightarrow> FieldsFunc_loop f cs (Some (snd c))
            | Some w \<Rightarrow> FieldsFunc_loop f cs (Some (w @ snd c))))"

definition FieldsFunc :: "string \<Rightarrow> (rune \<Rightarrow> bool) \<Rightarrow> string list" where
  "FieldsFunc s f = FieldsFunc_loop f (chunks s) None"

text \<open>\<open>tokenizeWords\<close>: the separator function is false on \<open>a..z\<close>, \<open>0..9\<close> and \<open>_\<close>.\<close>

definition isSeparator :: "rune \<Rightarrow> bool" where
  "isSeparator r =
     (if r \<ge> 0x61 \<and> r \<le> 0x7A then False
      else if r \<ge> 0x30 \<and> r \<le> 0x39 then False
      else if r = 0x5F then False
      else True)"

definition tokenizeWords :: "string \<Rightarrow> string list" where
  "tokenizeWords s = FieldsFunc s isSeparator"

text \<open>
  \<open>stripStringLiterals\<close>: the loop over the runes with its three flags; what is written
  to the builder is in front of what the rest of the loop writes.
\<close>

fun stripStringLiterals_loop :: "rune list \<Rightarrow> bool \<Rightarrow> bool \<Rightarrow> bool \<Rightarrow> string" where
  "stripStringLiterals_loop [] inDouble inRaw escape = []"
| "stripStringLiterals_loop (r # rs) inDouble inRaw escape =
     (if inRaw then
        (if r = 0x60 then '' '' @ stripStringLiterals_loop rs inDouble False escape
         else stripStringLiterals_loop rs inDouble inRaw escape)
      else if inDouble then
        (if escape then stripStringLiterals_loop rs inDouble inRaw False
         else if r = 0x5C then stripStringLiterals_loop rs inDouble inRaw True
         else if r = 0x22 then '' '' @ stripStringLiterals_loop rs False inRaw escape
         else stripStringLiterals_loop rs inDouble inRaw escape)
      else
        (if r = 0x22 then '' '' @ stripStringLiterals_loop rs True inRaw escape
         else if r = 0x60 then '' '' @ stripStringLiterals_loop rs inDouble True escape
         else EncodeRune r @ stripStringLiterals_loop rs inDouble inRaw escape))"

definition stripStringLiterals :: "string \<Rightarrow> string" where
  "stripStringLiterals expr = stripStringLiterals_loop (runes expr) False False False"

text \<open>
  \<open>CheckSensitive\<close>. The map \<open>safeNext\<close> is a set of strings; \<open>msgTextDiag\<close> and
  \<open>exprDiag\<close> are the two results of \<open>fmt.Sprintf\<close>.
\<close>

definition safeNext :: "string set" where
  "safeNext = set
     [''ok'', ''success'', ''successful'', ''succeeded'', ''failed'', ''failure'',
      ''error'', ''invalid'', ''missing'', ''present'', ''enabled'', ''disabled'',
      ''created'', ''generated'', ''refreshed'', ''expired'', ''validated'', ''completed'',
      ''revoked'', ''rotated'', ''updated'', ''authorized'', ''unauthorized'']"

definition msgTextDiag :: "golib \<Rightarrow> string \<Rightarrow> string" where
  "msgTextDiag L kw =
     ''log message may contain sensitive data (keyword '' @ Quote L kw
       @ '' found in message text)''"

definition exprDiag :: "golib \<Rightarrow> string \<Rightarrow> string" where
  "exprDiag L kw =
     ''log message may contain sensitive data (keyword '' @ Quote L kw
       @ '' found in argument expression)''"

text \<open>
  The inner loop over the tokens, from the token at index \<open>i\<close> on: \<open>Some\<close> is the
  \<open>return\<close>, \<open>None\<close> the \<open>break\<close> and the end of the loop. The token at \<open>i + 1\<close> exists
  when the rest of the list is not empty.
\<close>

fun tokens_loop :: "golib \<Rightarrow> string list \<Rightarrow> string \<Rightarrow> string option" where
  "tokens_loop L [] kw = None"
| "tokens_loop L (tok # rest) kw =
     (if tok \<noteq> kw then tokens_loop L rest kw
      else if rest \<noteq> [] \<and> hd rest \<in> safeNext then None
      else Some (msgTextDiag L kw))"

definition normalizeExpr :: "string \<Rightarrow> string" where
  "normalizeExpr lowerExpr =
     (let exprNoStrings = stripStringLiterals lowerExpr;
          normalized = ReplaceAll exprNoStrings ''_'' [];
          normalized = ReplaceAll normalized '' '' []
      in normalized)"

fun keywords_loop :: "golib \<Rightarrow> string list \<Rightarrow> string \<Rightarrow> string list \<Rightarrow> string" where
  "keywords_loop L tokens lowerExpr [] = []"
| "keywords_loop L tokens lowerExpr (kw0 # kws) =
     (let kw = ToLower L kw0 in
      case tokens_loop L tokens kw of
        Some diag \<Rightarrow> diag
      | None \<Rightarrow>
          (let normalized = normalizeExpr lowerExpr;
               kwNorm = ReplaceAll kw ''_'' []
           in if Contains normalized kwNorm then exprDiag L kw
              else keywords_loop L tokens lowerExpr kws))"

definition CheckSensitive :: "golib \<Rightarrow> string \<Rightarrow> string \<Rightarrow> string list \<Rightarrow> string" where
  "CheckSensitive L msg fullExpr' keywords =
     (let lower = ToLower L msg;
          lowerExpr = ToLower L fullExpr';
          tokens = tokenizeWords lower
      in keywords_loop L tokens lowerExpr keywords)"


section \<open>Suggested fixes (package analyzer)\<close>

record TextEdit =
  EditPos :: nat
  EditEnd :: nat
  NewText :: string

record SuggestedFix =
  FixMessage :: string
  TextEdits :: "TextEdit list"

text \<open>\<open>lowerRune\<close>.\<close>

definition lowerRune :: "rune \<Rightarrow> rune" where
  "lowerRune r = (if r \<ge> 0x41 \<and> r \<le> 0x5A then r + (0x61 - 0x41) else r)"

text \<open>
  \<open>suggestLowercaseFix\<close>. The conversion \<open>[]rune(msg)\<close> is \<open>runes\<close>, the conversion back
  writes the encoding of every rune. The empty list is \<open>nil\<close>. The code reads the first
  byte of the literal's text; on a literal without text this is a run-time panic, which
  is the result \<open>None\<close>.
\<close>

definition suggestLowercaseFix :: "pass \<Rightarrow> logCall \<Rightarrow> string \<Rightarrow> SuggestedFix list option" where
  "suggestLowercaseFix p lc msg =
     (if msg = [] then Some []
      else
        (case msgArg lc of
           BasicLit k v \<Rightarrow>
             (if k \<noteq> STRING then Some []
              else
                (let rs = runes msg in
                 if length rs = 0 then Some []
                 else
                   (let fixed = concat (map EncodeRune (lowerRune (hd rs) # tl rs)) in
                    if fixed = msg then Some []
                    else if v = [] then None
                    else
                      (let quote = EncodeRune (of_char (v ! 0));
                           fixedLit = quote @ fixed @ quote
                       in Some [\<lparr>FixMessage = ''lowercase first letter of log message'',
                                  TextEdits = [\<lparr>EditPos = NodePos p (msgArg lc),
                                                 EditEnd = NodeEnd p (msgArg lc),
                                                 NewText = fixedLit\<rparr>]\<rparr>]))))
         | _ \<Rightarrow> Some []))"

text \<open>
  \<open>strings.ContainsRune\<close>, that is \<open>IndexRune(s, r) >= 0\<close>: a byte search for an ASCII
  rune, a search for an invalid byte or an encoded \<open>RuneError\<close> for \<open>RuneError\<close>, nothing
  for another invalid rune, and a search for the encoding otherwise.
\<close>

definition ContainsRune :: "string \<Rightarrow> rune \<Rightarrow> bool" where
  "ContainsRune s r =
     (if 0 \<le> r \<and> r < 0x80 then char_of r \<in> set s
      else if r = RuneError then RuneError \<in> set (runes s)
      else if r < 0 \<or> 0x10FFFF < r \<or> (0xD800 \<le> r \<and> r \<le> 0xDFFF) then False
      else Contains s (EncodeRune r))"

text \<open>\<open>cleanSpecialMessage\<close>.\<close>

fun cleanSpecialMessage_loop :: "golib \<Rightarrow> rune set \<Rightarrow> rune list \<Rightarrow> string" where
  "cleanSpecialMessage_loop L allowed [] = []"
| "cleanSpecialMessage_loop L allowed (r # rs) =
     (if r > MaxASCII then cleanSpecialMessage_loop L allowed rs
      else if r \<in> allowed then EncodeRune r @ cleanSpecialMessage_loop L allowed rs
      else if ContainsRune defaultForbiddenASCII r then cleanSpecialMessage_loop L allowed rs
      else if r \<in> {0x2D, 0x5F, 0x2F, 0x3A, 0x2E, 0x2C, 0x20}
        then EncodeRune r @ cleanSpecialMessage_loop L allowed rs
      else if IsPunct L r \<or> IsSymbol L r then cleanSpecialMessage_loop L allowed rs
      else EncodeRune r @ cleanSpecialMessage_loop L allowed rs)"

definition cleanSpecialMessage :: "golib \<Rightarrow> string \<Rightarrow> string \<Rightarrow> string" where
  "cleanSpecialMessage L msg allowedExtra =
     (if msg = [] then msg
      else cleanSpecialMessage_loop L (set (runes allowedExtra)) (runes msg))"

text \<open>
  The message of six Cyrillic letters of the test \<open>unicode upper\<close>, a capital Ze
  (\<open>U+0417\<close>) and five small letters, in UTF-8, and the same word with a small Ze
  (\<open>U+0437\<close>).
\<close>

definition zapusk :: string where
  "zapusk = [CHR 0xD0, CHR 0x97, CHR 0xD0, CHR 0xB0, CHR 0xD0, CHR 0xBF,
             CHR 0xD1, CHR 0x83, CHR 0xD1, CHR 0x81, CHR 0xD0, CHR 0xBA]"

definition zapusk_lower :: string where
  "zapusk_lower = [CHR 0xD0, CHR 0xB7, CHR 0xD0, CHR 0xB0, CHR 0xD0, CHR 0xBF,
                   CHR 0xD1, CHR 0x83, CHR 0xD1, CHR 0x81, CHR 0xD0, CHR 0xBA]"

text \<open>The call record of a message that is the one string literal \<open>"msg"\<close>.\<close>

definition literal_call :: "string \<Rightarrow> logCall" where
  "literal_call msg =
     \<lparr>pos = 10, msgArg = BasicLit STRING ([CHR 0x22] @ msg @ [CHR 0x22]),
      msgLiteral = msg, fullExpr = [CHR 0x22] @ msg @ [CHR 0x22]\<rparr>"

section \<open>Reference notion: the maximal runs of a set of bytes\<close>




section \<open>Package predicate\<close>

lemma HasPrefix_append: "HasPrefix (p @ s) p"
  by (induction p) simp_all

lemma HasPrefix_iff: "HasPrefix s p \<longleftrightarrow> (\<exists>t. s = p @ t)"
  by (induction s p rule: HasPrefix.induct) auto

lemma isSupportedPackage_iff:
  "isSupportedPackage p \<longleftrightarrow>
     (\<exists>q \<in> set supportedPkgPrefixes. p = q \<or> (\<exists>t. p = q @ ''/'' @ t))"
  by (auto simp: isSupportedPackage_def supportedPkgPrefixes_def HasPrefix_iff)

text \<open>
  C3. The claim says that a path \<open>log/<anything>\<close> that is not itself a recognised
  library is not accepted. The code accepts every such path: \<open>log\<close> is an entry of
  \<open>supportedPkgPrefixes\<close>, and the loop applies the prefix test to every entry. At
  \<open>log/syslog\<close>, which is neither \<open>log/slog\<close> nor below it, the predicate is true.
\<close>

theorem C3_log_subpath_accepted:
  "isSupportedPackage ''log/syslog'' = True
   \<and> ''log/syslog'' \<noteq> ''log/slog''
   \<and> \<not> HasPrefix ''log/syslog'' ''log/slog/''
   \<and> \<not> HasPrefix ''log/syslog'' ''go.uber.org/zap''"
  by (simp add: isSupportedPackage_def supportedPkgPrefixes_def)

section \<open>Classification\<close>

text \<open>
  C9. When \<open>extractLogCall\<close> succeeds, the index computed by \<open>messageArgIndex\<close> is at
  least 0 and below the number of arguments, and the message argument of the result is
  the argument at that index; a call without arguments yields no \<open>logCall\<close>, whatever
  its function is.
\<close>

theorem C9_message_index_in_range:
  "(extractLogCall L p f args = Some lc \<longrightarrow>
      0 \<le> messageArgIndex p f args \<and> messageArgIndex p f args < int (length args)
      \<and> msgArg lc = args ! nat (messageArgIndex p f args))
   \<and> extractLogCall L p f [] = None"
  by (auto simp: extractLogCall_def Let_def messageArgIndex_def
           split: expr.splits if_splits prod.splits)

theorem C9_message_index_in_range_witness:
  "extractLogCall example_lib example_pass
       (SelectorExpr (Ident ''slog'' 0) ''Info'' 1) [BasicLit STRING [CHR 0x22, CHR ''x'', CHR 0x22]]
     = Some \<lparr>pos = 10, msgArg = BasicLit STRING [CHR 0x22, CHR ''x'', CHR 0x22], msgLiteral = ''x'', fullExpr = [CHR 0x22, CHR ''x'', CHR 0x22]\<rparr>
   \<and> 0 \<le> messageArgIndex example_pass (SelectorExpr (Ident ''slog'' 0) ''Info'' 1)
            [BasicLit STRING [CHR 0x22, CHR ''x'', CHR 0x22]]
   \<and> messageArgIndex example_pass (SelectorExpr (Ident ''slog'' 0) ''Info'' 1)
        [BasicLit STRING [CHR 0x22, CHR ''x'', CHR 0x22]] < int (length [BasicLit STRING [CHR 0x22, CHR ''x'', CHR 0x22]])
   \<and> extractLogCall example_lib example_pass (SelectorExpr (Ident ''slog'' 0) ''Info'' 1) []
       = None"
proof -
  have ev: "extractLogCall example_lib example_pass
       (SelectorExpr (Ident ''slog'' 0) ''Info'' 1) [BasicLit STRING [CHR 0x22, CHR ''x'', CHR 0x22]]
     = Some \<lparr>pos = 10, msgArg = BasicLit STRING [CHR 0x22, CHR ''x'', CHR 0x22], msgLiteral = ''x'', fullExpr = [CHR 0x22, CHR ''x'', CHR 0x22]\<rparr>"
    by (simp add: extractLogCall_def isSupportedLogMethod_def isLogMethod_def
          isSupportedPackage_def supportedPkgPrefixes_def pkgPathOf_def messageArgIndex_def
          extractStringValue_def exprToString_def sourceFragment_def example_pass_def
          example_lib_def IsValid_def unquoteLit_def Trim_def TrimPrefix_def TrimSuffix_def
          HasSuffix_def ReplaceAll.simps Let_def)
  show ?thesis
    using C9_message_index_in_range [of example_lib example_pass
        "SelectorExpr (Ident ''slog'' 0) ''Info'' 1" "[BasicLit STRING [CHR 0x22, CHR ''x'', CHR 0x22]]"
        "\<lparr>pos = 10, msgArg = BasicLit STRING [CHR 0x22, CHR ''x'', CHR 0x22], msgLiteral = ''x'', fullExpr = [CHR 0x22, CHR ''x'', CHR 0x22]\<rparr>"]
      ev
    by simp
qed

section \<open>Message resolver\<close>

lemma sourceFragment_loop_empty: "sourceFragment_loop L p fs filename from to = []"
  by (induction fs) (simp_all split: option.split)

lemma sourceFragment_empty: "sourceFragment L p filename from to = []"
  by (simp add: sourceFragment_def sourceFragment_loop_empty)

lemma inspect_write_preorder:
  "inspect_write e sb = sb @ concat (map node_text (preorder e))"
  "inspect_write_list es sb = sb @ concat (map node_text (concat (map preorder es)))"
  by (induction e sb and es sb rule: inspect_write_inspect_write_list.induct) simp_all

lemma exprToString_fallback: "exprToString L p (Some e) = inspect_write e []"
  by (simp add: exprToString_def Let_def sourceFragment_empty)

text \<open>
  C10, as the code has it. \<open>sourceFragment\<close> returns the empty string for every input,
  so \<open>exprToString\<close> is the concatenation, over the nodes of the expression in
  depth-first preorder, of the verbatim text of every basic literal, of whatever kind
  (a string literal with its delimiters, and a character or numeric literal too), and
  of the name of every identifier; the nil expression gives the empty string.
\<close>

theorem C10_exprToString_all_literals:
  "exprToString L p (Some e) = concat (map node_text (preorder e))
   \<and> exprToString L p None = []
   \<and> sourceFragment L p filename from to = []"
  by (simp add: exprToString_fallback inspect_write_preorder sourceFragment_empty)
     (simp add: exprToString_def)

text \<open>
  C10, as the claim states it, restricts the literals to string literals. The integer
  literal \<open>42\<close> shows the difference: the code writes its text.
\<close>

theorem C10_int_literal_counterexample:
  "exprToString example_lib example_pass (Some (BasicLit INT_kind ''42''))
     \<noteq> concat (map string_ident_text (preorder (BasicLit INT_kind ''42'')))"
  by (simp add: exprToString_fallback)

text \<open>
  C4. The claim says that the source literal of the five bytes quote, backslash,
  backslash, \<open>n\<close>, quote resolves to a backslash followed by the letter \<open>n\<close>. The code
  replaces the two backslashes by one and then, in the next replacement, that backslash
  and the \<open>n\<close> by a newline: the value it resolves is the one byte \<open>0x0A\<close>.
\<close>

theorem C4_escaped_backslash_before_n:
  "collectStringParts p
       (BasicLit STRING [CHR 0x22, CHR 0x5C, CHR 0x5C, CHR ''n'', CHR 0x22]) []
     = [[CHR 0x0A]]
   \<and> [CHR 0x0A] \<noteq> [CHR 0x5C, CHR ''n'']"
  by (simp add: unquoteLit_def Trim_def TrimPrefix_def TrimSuffix_def HasSuffix_def
        ReplaceAll.simps)

section \<open>Runes of a string\<close>

lemma chunks_Nil [simp]: "chunks [] = []"
  by (simp add: chunks.simps)

lemma runes_Nil [simp]: "runes [] = []"
  by (simp add: runes_def)

lemma of_char_int_range: "0 \<le> (of_char c :: int) \<and> (of_char c :: int) < 256"
proof -
  have "(of_char c :: int) = int (of_char c :: nat)"
    by (simp add: of_char_def)
  moreover have "(of_char c :: nat) < 256"
    by simp
  ultimately show ?thesis by simp
qed

lemma DecodeRuneInString_ascii:
  "(of_char c :: int) < 0x80 \<Longrightarrow> DecodeRuneInString (c # s) = (of_char c, 1)"
  by (simp add: DecodeRuneInString_def)

lemma chunks_ascii_Cons:
  "(of_char c :: int) < 0x80 \<Longrightarrow> chunks (c # s) = (of_char c, [c]) # chunks s"
  by (subst chunks.simps) (simp add: DecodeRuneInString_ascii)

lemma runes_ascii_Cons:
  "(of_char c :: int) < 0x80 \<Longrightarrow> runes (c # s) = of_char c # runes s"
  by (simp add: runes_def chunks_ascii_Cons)

lemma of_char_char_of_ascii:
  "0 \<le> r \<Longrightarrow> r \<le> 0x7F \<Longrightarrow> (of_char (char_of (r :: int)) :: int) = r"
  by simp

lemma runes_EncodeRune_ascii:
  "0 \<le> r \<Longrightarrow> r \<le> 0x7F \<Longrightarrow> runes (EncodeRune r @ s) = r # runes s"
  by (simp add: EncodeRune_def runes_ascii_Cons)

lemma runes_defaultForbiddenASCII:
  "runes defaultForbiddenASCII =
     [0x21, 0x40, 0x23, 0x24, 0x25, 0x5E, 0x26, 0x2A, 0x2B, 0x3D, 0x7C, 0x5C, 0x3C, 0x3E,
      0x3F, 0x60, 0x7E, 0x3B, 0x27, 0x22]"
  by code_simp

section \<open>Special characters rule\<close>

lemma forbidden_all:
  "list_all (\<lambda>r. r \<le> MaxASCII \<and> (IsPunct L r \<or> IsSymbol L r) \<and> \<not> isEmoji L r)
     (runes defaultForbiddenASCII)"
  unfolding runes_defaultForbiddenASCII
  by (simp add: MaxASCII_def IsPunct_def IsSymbol_def isEmoji_def IsSo_def category_def
        ascii_category_def)

lemma forbidden_is_punct_or_symbol:
  assumes "r \<in> set (runes defaultForbiddenASCII)"
  shows "r \<le> MaxASCII \<and> (IsPunct L r \<or> IsSymbol L r) \<and> \<not> isEmoji L r"
  using assms forbidden_all [of L] by (simp add: list_all_iff)

lemma buildForbiddenSet_iff:
  "r \<in> buildForbiddenSet a \<longleftrightarrow> r \<in> set (runes defaultForbiddenASCII) \<and> r \<notin> set (runes a)"
  by (auto simp: buildForbiddenSet_def Let_def)

lemma CheckSpecialChars_loop_None:
  "CheckSpecialChars_loop L F rs = None \<longleftrightarrow>
     (\<forall>r \<in> set rs. \<not> isEmoji L r
        \<and> \<not> (((r \<le> MaxASCII \<and> IsPunct L r) \<or> IsSymbol L r) \<and> r \<in> F))"
  by (induction rs) auto

lemma CheckSpecialChars_loop_Some:
  "CheckSpecialChars_loop L F rs = Some d \<Longrightarrow>
     \<exists>pre r post. rs = pre @ r # post
       \<and> CheckSpecialChars_loop L F pre = None
       \<and> (if isEmoji L r then d = emojiDiag L r
           else ((r \<le> MaxASCII \<and> IsPunct L r) \<or> IsSymbol L r) \<and> r \<in> F
                \<and> d = forbiddenDiag L r)"
proof (induction rs)
  case Nil
  then show ?case by simp
next
  case (Cons x xs)
  show ?case
  proof (cases "isEmoji L x \<or> (((x \<le> MaxASCII \<and> IsPunct L x) \<or> IsSymbol L x) \<and> x \<in> F)")
    case True
    with Cons.prems have "(x # xs) = [] @ x # xs \<and> CheckSpecialChars_loop L F [] = None
       \<and> (if isEmoji L x then d = emojiDiag L x
           else ((x \<le> MaxASCII \<and> IsPunct L x) \<or> IsSymbol L x) \<and> x \<in> F
                \<and> d = forbiddenDiag L x)"
      by (auto split: if_splits)
    then show ?thesis by blast
  next
    case False
    with Cons.prems have "CheckSpecialChars_loop L F xs = Some d" by auto
    from Cons.IH [OF this] obtain pre r post where
      h: "xs = pre @ r # post" "CheckSpecialChars_loop L F pre = None"
         "(if isEmoji L r then d = emojiDiag L r
           else ((r \<le> MaxASCII \<and> IsPunct L r) \<or> IsSymbol L r) \<and> r \<in> F
                \<and> d = forbiddenDiag L r)"
      by blast
    from h(1) have "x # xs = (x # pre) @ r # post" by simp
    moreover from h(2) False have "CheckSpecialChars_loop L F (x # pre) = None" by auto
    ultimately show ?thesis using h(3) by blast
  qed
qed

lemma checkRepeatedPunctuation_cases:
  "checkRepeatedPunctuation L msg =
     (if Contains msg ''...'' then repeatedDiag L ''...''
      else if Contains msg ''!!'' then repeatedDiag L ''!!''
      else if Contains msg ''??'' then repeatedDiag L ''??''
      else if Contains msg ''***'' then repeatedDiag L ''***''
      else [])"
  by (simp add: checkRepeatedPunctuation_def)

lemma diags_distinct:
  "emojiDiag L r \<noteq> repeatedDiag L seq" "forbiddenDiag L r \<noteq> repeatedDiag L seq"
  "emojiDiag L r \<noteq> []" "forbiddenDiag L r \<noteq> []" "repeatedDiag L seq \<noteq> []"
  "emojiDiag L r \<noteq> forbiddenDiag L r'"
  by (simp_all add: emojiDiag_def forbiddenDiag_def repeatedDiag_def)

lemma CheckSpecialChars_unfold:
  "CheckSpecialChars L msg a =
     (case CheckSpecialChars_loop L (buildForbiddenSet a) (runes msg) of
        Some diag \<Rightarrow> diag
      | None \<Rightarrow> checkRepeatedPunctuation L msg)"
  by (simp add: CheckSpecialChars_def Let_def split: option.split)

text \<open>
  C7. \<open>CheckSpecialChars\<close> returns what the scan of the runes returns, and the result
  of \<open>checkRepeatedPunctuation\<close> only when the scan has passed every rune. The scan
  returns at the first rune that is emoji-like or forbidden, and tests that rune for
  being emoji-like first. So a message that holds a character of the forbidden set is
  reported with a character diagnostic, for one of its runes, and never with the
  diagnostic of a repeated punctuation, whatever it contains besides.
\<close>

theorem C7_character_scan_first:
  "(CheckSpecialChars L msg a =
      (case CheckSpecialChars_loop L (buildForbiddenSet a) (runes msg) of
         Some diag \<Rightarrow> diag
       | None \<Rightarrow> checkRepeatedPunctuation L msg))
   \<and> (\<forall>d. CheckSpecialChars_loop L (buildForbiddenSet a) (runes msg) = Some d \<longrightarrow>
         (\<exists>pre r post. runes msg = pre @ r # post
            \<and> CheckSpecialChars_loop L (buildForbiddenSet a) pre = None
            \<and> (if isEmoji L r then d = emojiDiag L r
                else r \<in> buildForbiddenSet a \<and> d = forbiddenDiag L r)))
   \<and> ((\<exists>r \<in> set (runes msg). r \<in> buildForbiddenSet a) \<longrightarrow>
         (\<exists>r \<in> set (runes msg).
            CheckSpecialChars L msg a = emojiDiag L r
            \<or> (r \<in> buildForbiddenSet a \<and> CheckSpecialChars L msg a = forbiddenDiag L r))
         \<and> (\<forall>seq. CheckSpecialChars L msg a \<noteq> repeatedDiag L seq))"
proof (intro conjI allI impI)
  show "CheckSpecialChars L msg a =
      (case CheckSpecialChars_loop L (buildForbiddenSet a) (runes msg) of
         Some diag \<Rightarrow> diag
       | None \<Rightarrow> checkRepeatedPunctuation L msg)"
    by (rule CheckSpecialChars_unfold)
next
  fix d
  assume "CheckSpecialChars_loop L (buildForbiddenSet a) (runes msg) = Some d"
  from CheckSpecialChars_loop_Some [OF this]
  show "\<exists>pre r post. runes msg = pre @ r # post
            \<and> CheckSpecialChars_loop L (buildForbiddenSet a) pre = None
            \<and> (if isEmoji L r then d = emojiDiag L r
                else r \<in> buildForbiddenSet a \<and> d = forbiddenDiag L r)"
    by (auto split: if_splits)
next
  assume ex: "\<exists>r \<in> set (runes msg). r \<in> buildForbiddenSet a"
  then obtain x where x: "x \<in> set (runes msg)" "x \<in> buildForbiddenSet a" by blast
  from x(2) have "x \<le> MaxASCII \<and> (IsPunct L x \<or> IsSymbol L x)"
    using forbidden_is_punct_or_symbol [of x L] by (simp add: buildForbiddenSet_iff)
  with x have "CheckSpecialChars_loop L (buildForbiddenSet a) (runes msg) \<noteq> None"
    unfolding CheckSpecialChars_loop_None by blast
  then obtain d where d: "CheckSpecialChars_loop L (buildForbiddenSet a) (runes msg) = Some d"
    by blast
  from CheckSpecialChars_loop_Some [OF d] obtain pre r post where
    h: "runes msg = pre @ r # post"
       "(if isEmoji L r then d = emojiDiag L r
           else ((r \<le> MaxASCII \<and> IsPunct L r) \<or> IsSymbol L r) \<and> r \<in> buildForbiddenSet a
                \<and> d = forbiddenDiag L r)"
    by blast
  have res: "CheckSpecialChars L msg a = d"
    by (simp add: CheckSpecialChars_unfold d)
  from h(1) have mem: "r \<in> set (runes msg)" by simp
  show "\<exists>r \<in> set (runes msg).
            CheckSpecialChars L msg a = emojiDiag L r
            \<or> (r \<in> buildForbiddenSet a \<and> CheckSpecialChars L msg a = forbiddenDiag L r)"
    using mem h(2) res by (auto split: if_splits)
  fix seq
  show "CheckSpecialChars L msg a \<noteq> repeatedDiag L seq"
    using h(2) res diags_distinct(1,2) by (auto split: if_splits)
qed


theorem C7_character_scan_first_witness:
  "(\<exists>r \<in> set (runes ''wait!!''). r \<in> buildForbiddenSet [])
   \<and> Contains ''wait!!'' ''!!''
   \<and> CheckSpecialChars example_lib ''wait!!'' [] = forbiddenDiag example_lib 0x21
   \<and> (\<forall>seq. CheckSpecialChars example_lib ''wait!!'' [] \<noteq> repeatedDiag example_lib seq)"
proof -
  have mem: "\<exists>r \<in> set (runes ''wait!!''). r \<in> buildForbiddenSet []"
    by code_simp
  have ev: "Contains ''wait!!'' ''!!''
      \<and> CheckSpecialChars example_lib ''wait!!'' [] = forbiddenDiag example_lib 0x21"
    by code_simp
  show ?thesis
    using C7_character_scan_first [of example_lib "''wait!!''" "[]"] mem ev by blast
qed

section \<open>The fix of the special characters rule\<close>

lemma DecodeRuneInString_nonneg: "0 \<le> fst (DecodeRuneInString s)"
proof (cases s)
  case Nil
  then show ?thesis by (simp add: DecodeRuneInString_def RuneError_def)
next
  case (Cons c t)
  have c: "0 \<le> (of_char c :: int)" using of_char_int_range by blast
  have m: "\<And>k :: int. 0 \<le> k mod 64" "\<And>k :: int. 0 \<le> k mod 32"
    "\<And>k :: int. 0 \<le> k mod 16" "\<And>k :: int. 0 \<le> k mod 8"
    by simp_all
  show ?thesis
    using c m
    by (simp add: Cons DecodeRuneInString_def Let_def RuneError_def)
qed

lemma runes_nonneg: "r \<in> set (runes s) \<Longrightarrow> 0 \<le> r"
proof (induction s arbitrary: r rule: chunks.induct)
  case (1 s)
  show ?case
  proof (cases "s = []")
    case True
    with "1.prems" show ?thesis by simp
  next
    case False
    with "1.prems" have "r = fst (DecodeRuneInString s)
        \<or> r \<in> set (runes (drop (snd (DecodeRuneInString s)) s))"
      by (subst (asm) runes_def, subst (asm) chunks.simps) (auto simp: runes_def)
    then show ?thesis
      using DecodeRuneInString_nonneg "1.IH" [OF False] by auto
  qed
qed

lemma runes_all_ascii:
  "list_all (\<lambda>c. (of_char c :: int) < 0x80) s \<Longrightarrow> runes s = map of_char s"
  by (induction s) (simp_all add: runes_ascii_Cons)

lemma ContainsRune_defaultForbiddenASCII:
  assumes "0 \<le> r" "r < 0x80"
  shows "ContainsRune defaultForbiddenASCII r \<longleftrightarrow> r \<in> set (runes defaultForbiddenASCII)"
proof -
  have asc: "list_all (\<lambda>c. (of_char c :: int) < 0x80) defaultForbiddenASCII"
    by (simp add: defaultForbiddenASCII_def)
  have "char_of r \<in> set defaultForbiddenASCII \<longleftrightarrow> r \<in> of_char ` set defaultForbiddenASCII"
  proof
    assume "char_of r \<in> set defaultForbiddenASCII"
    then have "(of_char (char_of r) :: int) \<in> of_char ` set defaultForbiddenASCII" by blast
    with assms show "r \<in> of_char ` set defaultForbiddenASCII" by simp
  next
    assume "r \<in> of_char ` set defaultForbiddenASCII"
    then obtain c where "c \<in> set defaultForbiddenASCII" "r = of_char c" by blast
    then show "char_of r \<in> set defaultForbiddenASCII" by simp
  qed
  with assms show ?thesis
    by (simp add: ContainsRune_def runes_all_ascii [OF asc])
qed

lemma ascii_not_emoji: "0 \<le> r \<Longrightarrow> r \<le> 0x7F \<Longrightarrow> \<not> isEmoji L r"
  by (simp add: isEmoji_def IsSo_def category_def ascii_category_def)

lemma cleaned_passes_scan:
  assumes "\<forall>r \<in> set rs. 0 \<le> r"
  shows "CheckSpecialChars_loop L (buildForbiddenSet a)
           (runes (cleanSpecialMessage_loop L (set (runes a)) rs)) = None"
  using assms
proof (induction rs)
  case Nil
  then show ?case by simp
next
  case (Cons r rs)
  then have IH: "CheckSpecialChars_loop L (buildForbiddenSet a)
           (runes (cleanSpecialMessage_loop L (set (runes a)) rs)) = None"
    and nn: "0 \<le> r"
    by simp_all
  show ?case
  proof (cases "r > MaxASCII")
    case True
    then show ?thesis using IH by simp
  next
    case False
    then have le: "r \<le> 0x7F" by (simp add: MaxASCII_def)
    have keep: "(r \<in> set (runes a) \<or> \<not> ContainsRune defaultForbiddenASCII r) \<Longrightarrow>
        CheckSpecialChars_loop L (buildForbiddenSet a)
          (runes (EncodeRune r @ cleanSpecialMessage_loop L (set (runes a)) rs)) = None"
    proof -
      assume "r \<in> set (runes a) \<or> \<not> ContainsRune defaultForbiddenASCII r"
      then have "r \<notin> buildForbiddenSet a"
        using ContainsRune_defaultForbiddenASCII [OF nn] le
        by (auto simp: buildForbiddenSet_iff)
      then show ?thesis
        using IH ascii_not_emoji [OF nn le] by (simp add: runes_EncodeRune_ascii [OF nn le])
    qed
    show ?thesis
      using False IH keep by (simp del: insert_iff)
  qed
qed

text \<open>
  C8, as the code has it. The message that \<open>cleanSpecialMessage\<close> returns passes the
  scan of the runes in \<open>CheckSpecialChars\<close> under the same allow-list: it holds no
  emoji-like and no forbidden character. What \<open>CheckSpecialChars\<close> reports for it is
  what \<open>checkRepeatedPunctuation\<close> reports, so it reports no violation exactly when the
  cleaned message contains none of the four sequences.
\<close>

theorem C8_fix_passes_character_scan:
  "CheckSpecialChars_loop L (buildForbiddenSet a) (runes (cleanSpecialMessage L msg a)) = None
   \<and> CheckSpecialChars L (cleanSpecialMessage L msg a) a
       = checkRepeatedPunctuation L (cleanSpecialMessage L msg a)
   \<and> (CheckSpecialChars L (cleanSpecialMessage L msg a) a = [] \<longleftrightarrow>
        \<not> Contains (cleanSpecialMessage L msg a) ''...''
        \<and> \<not> Contains (cleanSpecialMessage L msg a) ''!!''
        \<and> \<not> Contains (cleanSpecialMessage L msg a) ''??''
        \<and> \<not> Contains (cleanSpecialMessage L msg a) ''***'')"
proof -
  have scan: "CheckSpecialChars_loop L (buildForbiddenSet a)
      (runes (cleanSpecialMessage L msg a)) = None"
    using cleaned_passes_scan [of "runes msg" L a] runes_nonneg [of _ msg]
    by (simp add: cleanSpecialMessage_def)
  then have eq: "CheckSpecialChars L (cleanSpecialMessage L msg a) a
       = checkRepeatedPunctuation L (cleanSpecialMessage L msg a)"
    by (simp add: CheckSpecialChars_unfold)
  show ?thesis
    using scan eq diags_distinct(5) [of L]
    by (simp add: checkRepeatedPunctuation_cases)
qed

theorem C8_fix_passes_character_scan_witness:
  "cleanSpecialMessage example_lib ''done!'' [] = ''done''
   \<and> CheckSpecialChars example_lib ''done!'' [] = forbiddenDiag example_lib 0x21
   \<and> CheckSpecialChars example_lib (cleanSpecialMessage example_lib ''done!'' []) [] = []"
proof -
  have ev: "cleanSpecialMessage example_lib ''done!'' [] = ''done''
      \<and> CheckSpecialChars example_lib ''done!'' [] = forbiddenDiag example_lib 0x21"
    by code_simp
  have no: "\<not> Contains ''done'' ''...'' \<and> \<not> Contains ''done'' ''!!''
      \<and> \<not> Contains ''done'' ''??'' \<and> \<not> Contains ''done'' ''***''"
    by simp
  from ev have c: "cleanSpecialMessage example_lib ''done!'' [] = ''done''"
    by simp
  have "CheckSpecialChars example_lib (cleanSpecialMessage example_lib ''done!'' []) [] = []"
    using C8_fix_passes_character_scan [of example_lib "[]" "''done!''"] no
    unfolding c by blast
  with ev show ?thesis by blast
qed

text \<open>
  C8, as the claim states it, fails where the character violation of the message is
  not a repeated punctuation and the removal of a character brings three periods
  together: the message \<open>.@..\<close> is reported for its \<open>@\<close>, the exception of the claim
  does not apply, and the cleaned message \<open>...\<close> is reported again.
\<close>

theorem C8_round_trip_counterexample:
  "CheckSpecialChars example_lib ''.@..'' [] = forbiddenDiag example_lib 0x40
   \<and> \<not> Contains ''.@..'' ''...''
   \<and> cleanSpecialMessage example_lib ''.@..'' [] = ''...''
   \<and> CheckSpecialChars example_lib (cleanSpecialMessage example_lib ''.@..'' []) []
       = repeatedDiag example_lib ''...''
   \<and> repeatedDiag example_lib ''...'' \<noteq> []"
  by code_simp

section \<open>The empty message\<close>

lemma keywords_loop_no_tokens:
  "keywords_loop L [] le kws = [] \<longleftrightarrow>
     (\<forall>kw \<in> set kws. \<not> Contains (normalizeExpr le) (ReplaceAll (ToLower L kw) ''_'' []))"
  by (induction kws) (simp_all add: Let_def exprDiag_def)

lemma keywords_loop_no_tokens_find:
  "keywords_loop L [] le kws =
     (case find (\<lambda>kw. Contains (normalizeExpr le) (ReplaceAll (ToLower L kw) ''_'' [])) kws of
        None \<Rightarrow> []
      | Some kw \<Rightarrow> exprDiag L (ToLower L kw))"
  by (induction kws) (simp_all add: Let_def del: ReplaceAll.simps)

lemma exprDiag_not_msgTextDiag: "exprDiag L kw \<noteq> msgTextDiag L kw'"
proof
  assume "exprDiag L kw = msgTextDiag L kw'"
  then have "rev (exprDiag L kw) ! 1 = rev (msgTextDiag L kw') ! 1" by simp
  then show False by (simp add: exprDiag_def msgTextDiag_def)
qed

lemma msgTextDiag_not_Nil: "msgTextDiag L kw \<noteq> []"
  by (simp add: msgTextDiag_def)

lemma tokenizeWords_Nil: "tokenizeWords [] = []"
  by (simp add: tokenizeWords_def FieldsFunc_def)

lemma ToLower_Nil: "ToLower L [] = []"
  by (simp add: ToLower_def)

text \<open>
  C2, as the code has it. On the empty message \<open>CheckLowercase\<close>, \<open>CheckEnglish\<close> and
  \<open>CheckSpecialChars\<close> return the empty string, whatever the allow-list. \<open>CheckSensitive\<close>
  has no token to compare and still searches the expression text: it returns the empty
  string exactly when no keyword, lower-cased and without underscores, occurs in the
  normalised expression text. Otherwise it returns the diagnostic of the expression
  check for the first keyword of the list that occurs there, lower-cased: the result is
  decided by \<open>find\<close> on the list of keywords, so a keyword is reported when it occurs and
  no keyword in front of it does. It never returns the diagnostic of the message text.
\<close>

theorem C2_empty_message:
  "CheckLowercase L [] = []
   \<and> CheckEnglish L [] = []
   \<and> CheckSpecialChars L [] a = []
   \<and> (CheckSensitive L [] e kws = [] \<longleftrightarrow>
        (\<forall>kw \<in> set kws.
           \<not> Contains (normalizeExpr (ToLower L e)) (ReplaceAll (ToLower L kw) ''_'' [])))
   \<and> CheckSensitive L [] e kws =
       (case find (\<lambda>kw. Contains (normalizeExpr (ToLower L e))
                          (ReplaceAll (ToLower L kw) ''_'' [])) kws of
          None \<Rightarrow> []
        | Some kw \<Rightarrow> exprDiag L (ToLower L kw))
   \<and> (\<forall>pre kw post.
         kws = pre @ kw # post
         \<and> (\<forall>k \<in> set pre.
              \<not> Contains (normalizeExpr (ToLower L e)) (ReplaceAll (ToLower L k) ''_'' []))
         \<and> Contains (normalizeExpr (ToLower L e)) (ReplaceAll (ToLower L kw) ''_'' [])
         \<longrightarrow> CheckSensitive L [] e kws = exprDiag L (ToLower L kw))
   \<and> (\<forall>kw. CheckSensitive L [] e kws \<noteq> msgTextDiag L kw)"
proof -
  let ?P = "\<lambda>kw. Contains (normalizeExpr (ToLower L e)) (ReplaceAll (ToLower L kw) ''_'' [])"
  have eq: "CheckSensitive L [] e kws =
       (case find ?P kws of None \<Rightarrow> [] | Some kw \<Rightarrow> exprDiag L (ToLower L kw))"
    by (simp add: CheckSensitive_def ToLower_Nil tokenizeWords_Nil keywords_loop_no_tokens_find
          del: ReplaceAll.simps)
  have empty: "CheckSensitive L [] e kws = [] \<longleftrightarrow> (\<forall>kw \<in> set kws. \<not> ?P kw)"
    by (simp add: CheckSensitive_def ToLower_Nil tokenizeWords_Nil keywords_loop_no_tokens
          del: ReplaceAll.simps)
  have first: "CheckSensitive L [] e kws = exprDiag L (ToLower L kw)"
    if "kws = pre @ kw # post" "\<forall>k \<in> set pre. \<not> ?P k" "?P kw" for pre kw post
  proof -
    from that have "find ?P kws = Some kw"
      by (induction pre arbitrary: kws) simp_all
    with eq show ?thesis by simp
  qed
  have nomsg: "CheckSensitive L [] e kws \<noteq> msgTextDiag L kw" for kw
    using exprDiag_not_msgTextDiag [of L _ kw] msgTextDiag_not_Nil [of L kw]
    by (simp add: eq split: option.split)
  show ?thesis
    using eq empty first nomsg
      CheckSpecialChars_unfold [of L "[]" a] checkRepeatedPunctuation_cases [of L "[]"]
    by (simp add: CheckLowercase_def CheckEnglish_def del: ReplaceAll.simps)
qed

theorem C2_empty_message_witness:
  "\<not> Contains (normalizeExpr (ToLower example_lib ''password''))
        (ReplaceAll (ToLower example_lib ''token'') ''_'' [])
   \<and> CheckSensitive example_lib [] ''password'' [''token''] = []
   \<and> CheckSpecialChars example_lib [] ''!'' = []
   \<and> CheckSensitive example_lib [] ''password'' [''token'', ''password'']
       = exprDiag example_lib ''password''"
proof -
  have h: "\<forall>kw \<in> set [''token''].
      \<not> Contains (normalizeExpr (ToLower example_lib ''password''))
           (ReplaceAll (ToLower example_lib kw) ''_'' [])"
    by code_simp
  have f: "find (\<lambda>kw. Contains (normalizeExpr (ToLower example_lib ''password''))
                          (ReplaceAll (ToLower example_lib kw) ''_'' []))
             [''token'', ''password''] = Some ''password''
           \<and> ToLower example_lib ''password'' = ''password''"
    by code_simp
  have a: "\<not> Contains (normalizeExpr (ToLower example_lib ''password''))
        (ReplaceAll (ToLower example_lib ''token'') ''_'' [])
   \<and> CheckSensitive example_lib [] ''password'' [''token''] = []
   \<and> CheckSpecialChars example_lib [] ''!'' = []"
    using C2_empty_message [of example_lib "''!''" "''password''" "[''token'']"] h by simp
  from f have f1: "find (\<lambda>kw. Contains (normalizeExpr (ToLower example_lib ''password''))
                          (ReplaceAll (ToLower example_lib kw) ''_'' []))
             [''token'', ''password''] = Some ''password''"
    and f2: "ToLower example_lib ''password'' = ''password''"
    by blast+
  have e: "CheckSensitive example_lib [] ''password'' [''token'', ''password''] =
       (case find (\<lambda>kw. Contains (normalizeExpr (ToLower example_lib ''password''))
                          (ReplaceAll (ToLower example_lib kw) ''_'' []))
               [''token'', ''password''] of
          None \<Rightarrow> []
        | Some kw \<Rightarrow> exprDiag example_lib (ToLower example_lib kw))"
    using C2_empty_message [of example_lib "[]" "''password''" "[''token'', ''password'']"] by blast
  have b: "CheckSensitive example_lib [] ''password'' [''token'', ''password'']
       = exprDiag example_lib ''password''"
    using e unfolding f1 by (simp add: f2)
  from a b show ?thesis by blast
qed

text \<open>
  C2, as the claim states it, fails for \<open>CheckSensitive\<close>: with the empty message, the
  expression text \<open>password\<close> (a variable of that name) and the keyword \<open>password\<close>, the
  rule reports the keyword in the argument expression.
\<close>

theorem C2_sensitive_empty_message_counterexample:
  "CheckSensitive example_lib [] ''password'' [''password'']
     = exprDiag example_lib ''password''
   \<and> CheckSensitive example_lib [] ''password'' [''password''] \<noteq> []"
  by code_simp

section \<open>The fix of the lowercase rule\<close>

text \<open>
  C6. The claim says that every message of one literal that starts with an upper-case
  letter, a non-ASCII one included, is reported with a fix that starts with the
  lower-case form of that letter. For the Cyrillic message above \<open>CheckLowercase\<close>
  reports the violation, and \<open>suggestLowercaseFix\<close> returns no fix: \<open>lowerRune\<close> maps the
  letters \<open>A..Z\<close> only, the computed string equals the message, and the fix is
  omitted. The message \<open>Start\<close> gets the fix \<open>"start"\<close>.
\<close>

theorem C6_no_fix_for_cyrillic_capital:
  "CheckLowercase example_lib zapusk = ''log message should start with a lowercase letter''
   \<and> fst (DecodeRuneInString zapusk) = 0x417
   \<and> ToLowerRune example_lib 0x417 = 0x437
   \<and> lowerRune 0x417 = 0x417
   \<and> suggestLowercaseFix example_pass (literal_call zapusk) zapusk = Some []
   \<and> suggestLowercaseFix example_pass (literal_call ''Start'') ''Start''
       = Some [\<lparr>FixMessage = ''lowercase first letter of log message'',
                 TextEdits = [\<lparr>EditPos = 10, EditEnd = 20,
                                NewText = [CHR 0x22] @ ''start'' @ [CHR 0x22]\<rparr>]\<rparr>]"
  by code_simp

section \<open>Decoding the first rune\<close>

lemma DecodeRuneInString_Nil: "DecodeRuneInString [] = (RuneError, 0)"
  by (simp add: DecodeRuneInString_def)

lemma DecodeRuneInString_invalid_first:
  "0x80 \<le> (of_char c :: int) \<Longrightarrow> (of_char c :: int) < 0xC2 \<or> 0xF4 < (of_char c :: int) \<Longrightarrow>
     DecodeRuneInString (c # t) = (RuneError, 1)"
  by (simp add: DecodeRuneInString_def Let_def)

lemma DecodeRuneInString_two:
  assumes "0xC2 \<le> (of_char c :: int)" "(of_char c :: int) < 0xE0"
  shows "DecodeRuneInString (c # t) =
     (if length t < 1 then (RuneError, 1)
      else if (of_char (t ! 0) :: int) < 0x80 \<or> 0xBF < (of_char (t ! 0) :: int)
        then (RuneError, 1)
      else ((of_char c mod 32) * 64 + of_char (t ! 0) mod 64, 2))"
  using assms by (simp add: DecodeRuneInString_def Let_def)

lemma DecodeRuneInString_three:
  assumes "0xE0 \<le> (of_char c :: int)" "(of_char c :: int) < 0xF0"
  shows "DecodeRuneInString (c # t) =
     (if length t < 2 then (RuneError, 1)
      else if (of_char (t ! 0) :: int) < (if (of_char c :: int) = 0xE0 then 0xA0 else 0x80)
              \<or> (if (of_char c :: int) = 0xED then 0x9F else 0xBF) < (of_char (t ! 0) :: int)
        then (RuneError, 1)
      else if (of_char (t ! 1) :: int) < 0x80 \<or> 0xBF < (of_char (t ! 1) :: int)
        then (RuneError, 1)
      else ((of_char c mod 16) * 4096 + (of_char (t ! 0) mod 64) * 64
              + of_char (t ! 1) mod 64, 3))"
  using assms by (simp add: DecodeRuneInString_def Let_def)

lemma DecodeRuneInString_four:
  assumes "0xF0 \<le> (of_char c :: int)" "(of_char c :: int) \<le> 0xF4"
  shows "DecodeRuneInString (c # t) =
     (if length t < 3 then (RuneError, 1)
      else if (of_char (t ! 0) :: int) < (if (of_char c :: int) = 0xF0 then 0x90 else 0x80)
              \<or> (if (of_char c :: int) = 0xF4 then 0x8F else 0xBF) < (of_char (t ! 0) :: int)
        then (RuneError, 1)
      else if (of_char (t ! 1) :: int) < 0x80 \<or> 0xBF < (of_char (t ! 1) :: int)
        then (RuneError, 1)
      else if (of_char (t ! 2) :: int) < 0x80 \<or> 0xBF < (of_char (t ! 2) :: int)
        then (RuneError, 1)
      else ((of_char c mod 8) * 262144 + (of_char (t ! 0) mod 64) * 4096
              + (of_char (t ! 1) mod 64) * 64 + of_char (t ! 2) mod 64, 4))"
  using assms by (simp add: DecodeRuneInString_def Let_def)


lemma first_byte_ranges:
  "(of_char c :: int) < 0x80
   \<or> (0x80 \<le> (of_char c :: int) \<and> ((of_char c :: int) < 0xC2 \<or> 0xF4 < (of_char c :: int)))
   \<or> (0xC2 \<le> (of_char c :: int) \<and> (of_char c :: int) < 0xE0)
   \<or> (0xE0 \<le> (of_char c :: int) \<and> (of_char c :: int) < 0xF0)
   \<or> (0xF0 \<le> (of_char c :: int) \<and> (of_char c :: int) \<le> 0xF4)"
  by linarith

lemma DecodeRuneInString_width_le4: "snd (DecodeRuneInString s) \<le> 4"
proof (cases s)
  case Nil
  then show ?thesis by (simp add: DecodeRuneInString_Nil)
next
  case (Cons c t)
  show ?thesis
    using first_byte_ranges [of c] unfolding Cons
    by (elim disjE conjE)
       (simp_all add: DecodeRuneInString_ascii DecodeRuneInString_invalid_first
          DecodeRuneInString_two DecodeRuneInString_three DecodeRuneInString_four)
qed

lemma DecodeRuneInString_lead:
  assumes "2 \<le> snd (DecodeRuneInString (c # t))"
  shows "0xC2 \<le> (of_char c :: int) \<and> (of_char c :: int) \<le> 0xF4"
  using first_byte_ranges [of c] assms
  by (elim disjE conjE)
     (simp_all add: DecodeRuneInString_ascii DecodeRuneInString_invalid_first)

lemma DecodeRuneInString_cont1:
  assumes "2 \<le> snd (DecodeRuneInString (c # t))"
  shows "1 \<le> length t \<and> 0x80 \<le> (of_char (t ! 0) :: int) \<and> (of_char (t ! 0) :: int) \<le> 0xBF"
  using first_byte_ranges [of c] assms
  by (elim disjE conjE)
     (auto simp: DecodeRuneInString_ascii DecodeRuneInString_invalid_first
        DecodeRuneInString_two DecodeRuneInString_three DecodeRuneInString_four Suc_le_eq
        split: if_splits)

lemma DecodeRuneInString_cont2:
  assumes "3 \<le> snd (DecodeRuneInString (c # t))"
  shows "2 \<le> length t \<and> 0x80 \<le> (of_char (t ! 1) :: int) \<and> (of_char (t ! 1) :: int) \<le> 0xBF"
  using first_byte_ranges [of c] assms
  by (elim disjE conjE)
     (simp_all add: DecodeRuneInString_ascii DecodeRuneInString_invalid_first
        DecodeRuneInString_two DecodeRuneInString_three DecodeRuneInString_four
        split: if_splits)

lemma DecodeRuneInString_cont3:
  assumes "4 \<le> snd (DecodeRuneInString (c # t))"
  shows "3 \<le> length t \<and> 0x80 \<le> (of_char (t ! 2) :: int) \<and> (of_char (t ! 2) :: int) \<le> 0xBF"
  using first_byte_ranges [of c] assms
  by (elim disjE conjE)
     (simp_all add: DecodeRuneInString_ascii DecodeRuneInString_invalid_first
        DecodeRuneInString_two DecodeRuneInString_three DecodeRuneInString_four
        split: if_splits)

lemma DecodeRuneInString_take_Cons:
  assumes "snd (DecodeRuneInString (c # t)) \<le> Suc m"
  shows "DecodeRuneInString (c # take m t) = DecodeRuneInString (c # t)"
  using first_byte_ranges [of c] assms
  by (elim disjE conjE)
     (auto simp: DecodeRuneInString_ascii DecodeRuneInString_invalid_first
        DecodeRuneInString_two DecodeRuneInString_three DecodeRuneInString_four
        split: if_splits)


lemma DecodeRuneInString_take:
  assumes "snd (DecodeRuneInString s) \<le> n"
  shows "DecodeRuneInString (take n s) = DecodeRuneInString s"
proof (cases s)
  case Nil
  then show ?thesis by simp
next
  case (Cons c t)
  with assms DecodeRuneInString_width [of s] obtain m where m: "n = Suc m"
    by (cases n) auto
  show ?thesis
    using assms DecodeRuneInString_take_Cons [of c t m] by (simp add: Cons m)
qed

lemma DecodeRuneInString_not_start:
  assumes "0x80 \<le> (of_char c :: int)" "(of_char c :: int) \<le> 0xBF"
  shows "DecodeRuneInString (c # t) = (RuneError, 1)"
  using assms by (simp add: DecodeRuneInString_invalid_first)

lemma DecodeRuneInString_continuation:
  assumes "1 \<le> k" "k < snd (DecodeRuneInString s)"
  shows "0x80 \<le> (of_char (s ! k) :: int) \<and> (of_char (s ! k) :: int) \<le> 0xBF"
proof (cases s)
  case Nil
  with assms show ?thesis by (simp add: DecodeRuneInString_Nil)
next
  case (Cons c t)
  from assms DecodeRuneInString_width_le4 [of s] have "k = 1 \<or> k = 2 \<or> k = 3"
    by linarith
  then show ?thesis
    using assms DecodeRuneInString_cont1 [of c t] DecodeRuneInString_cont2 [of c t]
      DecodeRuneInString_cont3 [of c t]
    by (auto simp: Cons numeral_2_eq_2 numeral_3_eq_3)
qed

section \<open>Decoding the last rune\<close>

lemma div_64_mod_4:
  assumes "0 \<le> (x :: int)" "x < 256"
  shows "(x div 64) mod 4 = 2 \<longleftrightarrow> 128 \<le> x \<and> x \<le> 191"
proof -
  from assms have "0 \<le> x div 64" "x div 64 < 4" by simp_all
  then have m: "(x div 64) mod 4 = x div 64" by simp
  have "x div 64 = 2 \<longleftrightarrow> 128 \<le> x \<and> x \<le> 191" by linarith
  with m show ?thesis by simp
qed

lemma RuneStart_iff:
  "RuneStart b \<longleftrightarrow> \<not> (0x80 \<le> (of_char b :: int) \<and> (of_char b :: int) \<le> 0xBF)"
  unfolding RuneStart_def using of_char_int_range [of b] div_64_mod_4 [of "of_char b"] by simp

lemma DecodeLastRuneInString_cases:
  assumes "q \<noteq> []"
  shows "snd (DecodeLastRuneInString q) = 1
     \<or> (\<exists>start < length q.
           DecodeLastRuneInString q = DecodeRuneInString (drop start q)
           \<and> start + snd (DecodeRuneInString (drop start q)) = length q)"
proof (cases "(of_char (q ! (length q - 1)) :: int) < 0x80")
  case True
  with assms show ?thesis by (simp add: DecodeLastRuneInString_def Let_def)
next
  case False
  define start where "start =
      (if 2 \<le> length q \<and> RuneStart (q ! (length q - 2)) then length q - 2
       else if 3 \<le> length q \<and> RuneStart (q ! (length q - 3)) then length q - 3
       else if 4 \<le> length q \<and> RuneStart (q ! (length q - 4)) then length q - 4
       else length q - 5)"
  from assms have lt: "start < length q" by (cases q) (auto simp: start_def)
  have eq: "DecodeLastRuneInString q =
      (if start + snd (DecodeRuneInString (drop start q)) \<noteq> length q then (RuneError, 1)
       else (fst (DecodeRuneInString (drop start q)), snd (DecodeRuneInString (drop start q))))"
    using False assms by (simp add: DecodeLastRuneInString_def Let_def start_def [symmetric])
  show ?thesis
  proof (cases "start + snd (DecodeRuneInString (drop start q)) = length q")
    case True
    with eq lt show ?thesis by auto
  next
    case False
    with eq show ?thesis by simp
  qed
qed

lemma IsSpace_ascii: "(of_char c :: int) < 0x80 \<Longrightarrow> IsSpace (of_char c) \<longleftrightarrow> asciiSpace c"
  using of_char_int_range [of c] by (auto simp: IsSpace_def asciiSpace_def)

lemma IsSpace_RuneError: "\<not> IsSpace RuneError"
  by (simp add: IsSpace_def RuneError_def)

text \<open>A string that is exactly one rune wide decodes the same from its end.\<close>

lemma DecodeLastRuneInString_exact:
  assumes "q \<noteq> []" "snd (DecodeRuneInString q) = length q"
  shows "DecodeLastRuneInString q = DecodeRuneInString q"
proof -
  from assms obtain c t where q: "q = c # t" by (cases q) auto
  have le4: "length q \<le> 4" using assms(2) DecodeRuneInString_width_le4 [of q] by simp
  show ?thesis
  proof (cases "length t = 0")
    case True
    then have t: "t = []" by simp
    from assms(2) have "snd (DecodeRuneInString [c]) = Suc 0" by (simp add: q t)
    then show ?thesis
      by (simp add: q t DecodeLastRuneInString_def Let_def DecodeRuneInString_ascii
            prod_eq_iff)
  next
    case False
    then have l1: "1 \<le> length t" by (cases t) auto
    then have w2: "2 \<le> snd (DecodeRuneInString (c # t))" using assms(2) q by simp
    have lead: "RuneStart c"
      using DecodeRuneInString_lead [OF w2] by (simp add: RuneStart_iff)
    have cont: "\<And>k. 1 \<le> k \<Longrightarrow> k < length q \<Longrightarrow>
        0x80 \<le> (of_char (q ! k) :: int) \<and> \<not> RuneStart (q ! k)"
      using DecodeRuneInString_continuation [of _ q] assms(2) by (simp add: RuneStart_iff)
    from le4 q have "length t \<le> 3" by simp
    with l1 have "length t = 1 \<or> length t = 2 \<or> length t = 3" by linarith
    then show ?thesis
    proof (elim disjE)
      assume "length t = 1"
      then obtain a where t: "t = [a]" by (cases t) auto
      from cont [of 1] have "0x80 \<le> (of_char a :: int)" by (simp add: q t)
      then show ?thesis
        using lead assms(2)
        by (simp add: q t DecodeLastRuneInString_def Let_def prod_eq_iff)
    next
      assume "length t = 2"
      then obtain a b where t: "t = [a, b]"
        by (cases t; cases "tl t") auto
      from cont [of 1] cont [of 2] have "\<not> RuneStart a" "0x80 \<le> (of_char b :: int)"
        by (simp_all add: q t)
      then show ?thesis
        using lead assms(2)
        by (simp add: q t DecodeLastRuneInString_def Let_def prod_eq_iff)
    next
      assume "length t = 3"
      then obtain a b d where t: "t = [a, b, d]"
        by (cases t; cases "tl t"; cases "tl (tl t)") auto
      from cont [of 1] cont [of 2] cont [of 3]
      have "\<not> RuneStart a" "\<not> RuneStart b" "0x80 \<le> (of_char d :: int)"
        by (simp_all add: q t)
      then show ?thesis
        using lead assms(2)
        by (simp add: q t DecodeLastRuneInString_def Let_def prod_eq_iff)
    qed
  qed
qed

text \<open>
  One step back from the end of a string whose first rune is no white space: either
  the step ends at the start of the string, on a rune that is no white space, or it
  ends behind the first rune.
\<close>

lemma DecodeLastRuneInString_step:
  assumes "q \<noteq> []" "\<not> IsSpace (fst (DecodeRuneInString q))"
  shows "(length q - snd (DecodeLastRuneInString q) = 0
            \<and> \<not> IsSpace (fst (DecodeLastRuneInString q)))
         \<or> snd (DecodeRuneInString q) \<le> length q - snd (DecodeLastRuneInString q)"
proof -
  let ?w = "snd (DecodeRuneInString q)"
  let ?size = "snd (DecodeLastRuneInString q)"
  have w: "1 \<le> ?w" "?w \<le> length q"
    using DecodeRuneInString_width [OF assms(1)] by simp_all
  have sz: "1 \<le> ?size" "?size \<le> length q"
    using DecodeLastRuneInString_width [OF assms(1)] by simp_all
  show ?thesis
  proof (cases "?w = length q")
    case True
    have "DecodeLastRuneInString q = DecodeRuneInString q"
      using DecodeLastRuneInString_exact [OF assms(1) True] .
    with True assms(2) show ?thesis by simp
  next
    case False
    with w have gt: "?w < length q" by simp
    from DecodeLastRuneInString_cases [OF assms(1)] show ?thesis
    proof
      assume "?size = 1"
      with gt have "?w \<le> length q - ?size" by simp
      then show ?thesis by blast
    next
      assume "\<exists>start < length q.
           DecodeLastRuneInString q = DecodeRuneInString (drop start q)
           \<and> start + snd (DecodeRuneInString (drop start q)) = length q"
      then obtain start where st: "start < length q"
        "DecodeLastRuneInString q = DecodeRuneInString (drop start q)"
        "start + snd (DecodeRuneInString (drop start q)) = length q"
        by blast
      from st(2,3) have i: "length q - ?size = start" by simp
      have "?w \<le> start"
      proof (rule ccontr)
        assume "\<not> ?w \<le> start"
        then have lt: "start < ?w" by simp
        show False
        proof (cases "start = 0")
          case True
          with st(3) gt show False by simp
        next
          case False
          then have "1 \<le> start" by simp
          from DecodeRuneInString_continuation [OF this lt]
          have c: "0x80 \<le> (of_char (q ! start) :: int)" "(of_char (q ! start) :: int) \<le> 0xBF"
            by simp_all
          from st(1) have d: "drop start q = q ! start # drop (Suc start) q"
            by (simp add: Cons_nth_drop_Suc)
          have "DecodeRuneInString (drop start q) = (RuneError, 1)"
            by (subst d) (rule DecodeRuneInString_not_start [OF c])
          with st(3) have "Suc start = length q" by simp
          with lt w(2) gt show False by simp
        qed
      qed
      with i show ?thesis by simp
    qed
  qed
qed


section \<open>Trimming keeps the first rune\<close>

lemma lastIndexFunc_first_rune:
  assumes "q \<noteq> []" "\<not> IsSpace (fst (DecodeRuneInString q))"
  shows "\<exists>j. lastIndexFunc q IsSpace = Some j
           \<and> (j = 0 \<or> snd (DecodeRuneInString q) \<le> j) \<and> j < length q"
  using assms
proof (induction "length q" arbitrary: q rule: less_induct)
  case (less s)
  note prems = less.prems
  let ?size = "snd (DecodeLastRuneInString s)"
  let ?i = "length s - ?size"
  have sz: "1 \<le> ?size" "?size \<le> length s"
    using DecodeLastRuneInString_width [OF prems(1)] by simp_all
  have w: "1 \<le> snd (DecodeRuneInString s)"
    using DecodeRuneInString_width [OF prems(1)] by simp
  note step = DecodeLastRuneInString_step [OF prems]
  show ?case
  proof (cases "IsSpace (fst (DecodeLastRuneInString s))")
    case True
    with step have le: "snd (DecodeRuneInString s) \<le> ?i" by blast
    with w have ne: "take ?i s \<noteq> []" using sz by auto
    have d: "DecodeRuneInString (take ?i s) = DecodeRuneInString s"
      using DecodeRuneInString_take [OF le] .
    have "length (take ?i s) < length s" using sz prems(1) by (cases s) auto
    from less.hyps [OF this ne] d prems(2)
    obtain j where j: "lastIndexFunc (take ?i s) IsSpace = Some j"
      "j = 0 \<or> snd (DecodeRuneInString s) \<le> j" "j < length (take ?i s)"
      by auto
    have "lastIndexFunc s IsSpace = lastIndexFunc (take ?i s) IsSpace"
      using prems(1) True by (subst lastIndexFunc.simps) simp
    with j show ?thesis by auto
  next
    case False
    then have "lastIndexFunc s IsSpace = Some ?i"
      using prems(1) by (subst lastIndexFunc.simps) simp
    moreover have "?i < length s" using sz prems(1) by (cases s) auto
    moreover from step have "?i = 0 \<or> snd (DecodeRuneInString s) \<le> ?i" by blast
    ultimately show ?thesis by blast
  qed
qed

lemma TrimRightFunc_first_rune:
  assumes "q \<noteq> []" "\<not> IsSpace (fst (DecodeRuneInString q))"
  shows "\<exists>n. snd (DecodeRuneInString q) \<le> n \<and> TrimRightFunc q IsSpace = take n q"
proof -
  from lastIndexFunc_first_rune [OF assms] obtain j where
    j: "lastIndexFunc q IsSpace = Some j" "j = 0 \<or> snd (DecodeRuneInString q) \<le> j"
    by blast
  from assms(1) obtain c t where q: "q = c # t" by (cases q) auto
  show ?thesis
  proof (cases "j = 0")
    case True
    show ?thesis
    proof (cases "(of_char c :: int) \<ge> 0x80")
      case True
      with \<open>j = 0\<close> j(1) have "TrimRightFunc q IsSpace = take (snd (DecodeRuneInString q)) q"
        by (simp add: TrimRightFunc_def q)
      then show ?thesis by blast
    next
      case False
      then have "snd (DecodeRuneInString q) = 1"
        by (simp add: q DecodeRuneInString_ascii)
      moreover from False \<open>j = 0\<close> j(1) have "TrimRightFunc q IsSpace = take 1 q"
        by (simp add: TrimRightFunc_def q)
      ultimately show ?thesis by (metis order_refl)
    qed
  next
    case False
    with j(2) have le: "snd (DecodeRuneInString q) \<le> j" by simp
    have "TrimRightFunc q IsSpace = take (j + snd (DecodeRuneInString (drop j q))) q
        \<or> TrimRightFunc q IsSpace = take (j + 1) q"
      using j(1) by (simp add: TrimRightFunc_def)
    with le show ?thesis
      by (metis trans_le_add1)
  qed
qed

lemma TrimLeftFunc_first_rune:
  "\<not> IsSpace (fst (DecodeRuneInString q)) \<Longrightarrow> TrimLeftFunc q IsSpace = q"
  by (subst TrimLeftFunc.simps) simp

lemma TrimSpace_stop_first_byte:
  assumes "u \<noteq> []" "(of_char (last u) :: int) < 0x80" "\<not> asciiSpace (last u)"
  shows "\<exists>n. 1 \<le> n \<and> TrimSpace_stop u = take n (rev u)"
  using assms
proof (induction u)
  case Nil
  then show ?case by simp
next
  case (Cons x r)
  show ?case
  proof (cases "(of_char x :: int) \<ge> 0x80")
    case True
    let ?q = "rev (x # r)"
    have hd: "?q = last (x # r) # tl ?q"
      by (metis Cons.prems(1) hd_rev list.collapse rev_is_Nil_conv)
    have d: "DecodeRuneInString ?q = (of_char (last (x # r)), 1)"
      by (subst hd) (rule DecodeRuneInString_ascii [OF Cons.prems(2)])
    have "\<not> IsSpace (of_char (last (x # r)))"
      using IsSpace_ascii [OF Cons.prems(2)] Cons.prems(3) by blast
    then have "\<not> IsSpace (fst (DecodeRuneInString ?q))"
      unfolding d by simp
    from TrimRightFunc_first_rune [OF _ this] obtain n where
      "snd (DecodeRuneInString ?q) \<le> n" "TrimRightFunc ?q IsSpace = take n ?q"
      by auto
    with d True show ?thesis by auto
  next
    case False
    show ?thesis
    proof (cases "asciiSpace x")
      case True
      with Cons.prems(3) have ne: "r \<noteq> []" by auto
      then have l: "last (x # r) = last r" by simp
      from Cons.IH [OF ne] Cons.prems(2,3) l obtain n where
        n: "1 \<le> n" "TrimSpace_stop r = take n (rev r)" by auto
      have "take n (rev r) = take (min n (length r)) (rev r)"
        by (cases "n \<le> length r") (simp_all add: min_def)
      then have "take n (rev r) = take (min n (length r)) (rev (x # r))" by simp
      moreover have "1 \<le> min n (length r)" using n(1) ne by (cases r) auto
      moreover have "TrimSpace_stop (x # r) = TrimSpace_stop r"
        using False True by simp
      ultimately show ?thesis using n(2) by metis
    next
      case nsp: False
      have "TrimSpace_stop (x # r) = take (length (x # r)) (rev (x # r))"
        using False nsp by simp
      then show ?thesis by (metis One_nat_def Suc_le_mono le0 length_Cons)
    qed
  qed
qed

lemma TrimSpace_first_rune:
  assumes "s \<noteq> []" "\<not> IsSpace (fst (DecodeRuneInString s))"
  shows "\<exists>n. snd (DecodeRuneInString s) \<le> n \<and> TrimSpace s = take n s"
proof -
  from assms(1) obtain c t where s: "s = c # t" by (cases s) auto
  show ?thesis
  proof (cases "(of_char c :: int) \<ge> 0x80")
    case True
    then have "TrimSpace s = TrimRightFunc s IsSpace"
      by (simp add: s TrimFunc_def TrimLeftFunc_first_rune [OF assms(2) [unfolded s]])
    with TrimRightFunc_first_rune [OF assms] show ?thesis by simp
  next
    case False
    then have asc: "(of_char c :: int) < 0x80" by simp
    then have d: "DecodeRuneInString s = (of_char c, 1)"
      by (simp add: s DecodeRuneInString_ascii)
    with assms(2) have nsp: "\<not> asciiSpace c" by (simp add: IsSpace_ascii [OF asc])
    then have "TrimSpace s = TrimSpace_stop (rev s)"
      using asc by (simp add: s)
    moreover have "\<exists>n. 1 \<le> n \<and> TrimSpace_stop (rev s) = take n (rev (rev s))"
      by (rule TrimSpace_stop_first_byte) (simp_all add: s asc nsp)
    ultimately show ?thesis using d by auto
  qed
qed

lemma DecodeRuneInString_TrimSpace:
  assumes "s \<noteq> []" "\<not> IsSpace (fst (DecodeRuneInString s))"
  shows "TrimSpace s \<noteq> [] \<and> DecodeRuneInString (TrimSpace s) = DecodeRuneInString s"
proof -
  from TrimSpace_first_rune [OF assms] obtain n where
    n: "snd (DecodeRuneInString s) \<le> n" "TrimSpace s = take n s" by blast
  have "1 \<le> n" using n(1) DecodeRuneInString_width [OF assms(1)] by simp
  with assms(1) n(2) have "TrimSpace s \<noteq> []" by (cases s) auto
  with DecodeRuneInString_take [OF n(1)] n(2) show ?thesis by simp
qed

section \<open>Leading white space\<close>

lemma short_append:
  "\<not> length (t :: 'a list) < n \<Longrightarrow> \<not> length (t @ u) < n"
  by simp

lemma nth_append_first: "i < length t \<Longrightarrow> (t @ u) ! i = t ! i"
  by (simp add: nth_append)

lemma not_short_nth:
  "\<not> length (t :: 'a list) < 1 \<Longrightarrow> (t @ u) ! 0 = t ! 0"
  "\<not> length (t :: 'a list) < 2 \<Longrightarrow> (t @ u) ! 0 = t ! 0 \<and> (t @ u) ! 1 = t ! 1"
  "\<not> length (t :: 'a list) < 3 \<Longrightarrow> (t @ u) ! 0 = t ! 0 \<and> (t @ u) ! 1 = t ! 1 \<and> (t @ u) ! 2 = t ! 2"
  by (intro conjI nth_append_first; arith)+

lemma DecodeRuneInString_append_Cons:
  assumes "fst (DecodeRuneInString (c # t)) \<noteq> RuneError"
  shows "DecodeRuneInString (c # t @ u) = DecodeRuneInString (c # t)"
proof -
  consider (a) "(of_char c :: int) < 0x80"
    | (b) "0x80 \<le> (of_char c :: int)" "(of_char c :: int) < 0xC2 \<or> 0xF4 < (of_char c :: int)"
    | (two) "0xC2 \<le> (of_char c :: int)" "(of_char c :: int) < 0xE0"
    | (three) "0xE0 \<le> (of_char c :: int)" "(of_char c :: int) < 0xF0"
    | (four) "0xF0 \<le> (of_char c :: int)" "(of_char c :: int) \<le> 0xF4"
    using first_byte_ranges [of c] by blast
  then show ?thesis
  proof cases
    case a
    then show ?thesis by (simp add: DecodeRuneInString_ascii)
  next
    case b
    then show ?thesis by (simp add: DecodeRuneInString_invalid_first)
  next
    case two
    have l: "\<not> length t < 1"
    proof
      assume "length t < 1"
      then have "DecodeRuneInString (c # t) = (RuneError, 1)"
        by (simp only: DecodeRuneInString_two [OF two] if_True)
      with assms show False by simp
    qed
    note l' = short_append [OF l, of u]
    note nth = not_short_nth(1) [OF l, of u]
    show ?thesis
      unfolding DecodeRuneInString_two [OF two] nth
      by (simp only: l l' if_False)
  next
    case three
    have l: "\<not> length t < 2"
    proof
      assume "length t < 2"
      then have "DecodeRuneInString (c # t) = (RuneError, 1)"
        by (simp only: DecodeRuneInString_three [OF three] if_True)
      with assms show False by simp
    qed
    note l' = short_append [OF l, of u]
    from not_short_nth(2) [OF l, of u]
    have nth: "(t @ u) ! 0 = t ! 0" "(t @ u) ! 1 = t ! 1" by blast+
    show ?thesis
      unfolding DecodeRuneInString_three [OF three] nth
      by (simp only: l l' if_False)
  next
    case four
    have l: "\<not> length t < 3"
    proof
      assume "length t < 3"
      then have "DecodeRuneInString (c # t) = (RuneError, 1)"
        by (simp only: DecodeRuneInString_four [OF four] if_True)
      with assms show False by simp
    qed
    note l' = short_append [OF l, of u]
    from not_short_nth(3) [OF l, of u]
    have nth: "(t @ u) ! 0 = t ! 0" "(t @ u) ! 1 = t ! 1" "(t @ u) ! 2 = t ! 2" by blast+
    show ?thesis
      unfolding DecodeRuneInString_four [OF four] nth
      by (simp only: l l' if_False)
  qed
qed

lemma DecodeRuneInString_append:
  assumes "s \<noteq> []" "fst (DecodeRuneInString s) \<noteq> RuneError"
  shows "DecodeRuneInString (s @ u) = DecodeRuneInString s"
proof -
  from assms(1) obtain c t where s: "s = c # t" by (cases s) auto
  with assms(2) DecodeRuneInString_append_Cons [of c t u] show ?thesis by simp
qed

lemma DecodeRuneInString_append_space:
  assumes "s \<noteq> []" "IsSpace (fst (DecodeRuneInString s))"
  shows "DecodeRuneInString (s @ u) = DecodeRuneInString s"
  using assms IsSpace_RuneError by (intro DecodeRuneInString_append) auto

lemma runes_unfold:
  "s \<noteq> [] \<Longrightarrow>
     runes s = fst (DecodeRuneInString s) # runes (drop (snd (DecodeRuneInString s)) s)"
  by (subst runes_def, subst chunks.simps) (simp add: runes_def)

lemma TrimLeftFunc_leading:
  "list_all IsSpace (runes ws) \<Longrightarrow> TrimLeftFunc (ws @ msg) IsSpace = TrimLeftFunc msg IsSpace"
proof (induction "length ws" arbitrary: ws rule: less_induct)
  case (less ws)
  show ?case
  proof (cases "ws = []")
    case True
    then show ?thesis by simp
  next
    case False
    let ?w = "snd (DecodeRuneInString ws)"
    from less.prems False have sp: "IsSpace (fst (DecodeRuneInString ws))"
      and rest: "list_all IsSpace (runes (drop ?w ws))"
      by (simp_all add: runes_unfold)
    have w: "1 \<le> ?w" "?w \<le> length ws"
      using DecodeRuneInString_width [OF False] by simp_all
    have d: "DecodeRuneInString (ws @ msg) = DecodeRuneInString ws"
      using DecodeRuneInString_append_space [OF False sp] .
    have "length (drop ?w ws) < length ws" using w False by (cases ws) auto
    from less.hyps [OF this rest]
    have IH: "TrimLeftFunc (drop ?w ws @ msg) IsSpace = TrimLeftFunc msg IsSpace" .
    have "TrimLeftFunc (ws @ msg) IsSpace = TrimLeftFunc (drop ?w (ws @ msg)) IsSpace"
      using False sp d by (subst TrimLeftFunc.simps) simp
    also have "drop ?w (ws @ msg) = drop ?w ws @ msg" using w by simp
    finally show ?thesis using IH by simp
  qed
qed

lemma TrimSpace_leading:
  "list_all IsSpace (runes ws) \<Longrightarrow>
     TrimSpace (ws @ msg) = TrimSpace msg \<or> TrimSpace (ws @ msg) = TrimFunc msg IsSpace"
proof (induction ws)
  case Nil
  then show ?case by simp
next
  case (Cons c ws)
  show ?case
  proof (cases "(of_char c :: int) \<ge> 0x80")
    case True
    then have "TrimSpace ((c # ws) @ msg) = TrimFunc ((c # ws) @ msg) IsSpace" by simp
    then show ?thesis
      using TrimLeftFunc_leading [OF Cons.prems, of msg] by (simp add: TrimFunc_def)
  next
    case False
    then have asc: "(of_char c :: int) < 0x80" by simp
    with Cons.prems have "IsSpace (of_char c)" "list_all IsSpace (runes ws)"
      by (simp_all add: runes_ascii_Cons)
    with asc have "asciiSpace c" by (simp add: IsSpace_ascii)
    with asc Cons.IH [OF \<open>list_all IsSpace (runes ws)\<close>] show ?thesis by simp
  qed
qed

lemma lastIndexFunc_Nil: "lastIndexFunc [] f = None"
  by (subst lastIndexFunc.simps) simp

lemma TrimFunc_Nil: "TrimFunc [] f = []"
  by (simp add: TrimFunc_def TrimRightFunc_def lastIndexFunc_Nil TrimLeftFunc.simps)

lemma TrimSpace_all_space: "list_all IsSpace (runes ws) \<Longrightarrow> TrimSpace ws = []"
  using TrimSpace_leading [of ws "[]"] by (auto simp: TrimFunc_Nil)

lemma DecodeRuneInString_TrimFunc:
  assumes "s \<noteq> []" "\<not> IsSpace (fst (DecodeRuneInString s))"
  shows "TrimFunc s IsSpace \<noteq> [] \<and> DecodeRuneInString (TrimFunc s IsSpace) = DecodeRuneInString s"
proof -
  from TrimRightFunc_first_rune [OF assms] obtain n where
    n: "snd (DecodeRuneInString s) \<le> n" "TrimRightFunc s IsSpace = take n s" by blast
  have t: "TrimFunc s IsSpace = take n s"
    by (simp add: TrimFunc_def TrimLeftFunc_first_rune [OF assms(2)] n(2))
  have "1 \<le> n" using n(1) DecodeRuneInString_width [OF assms(1)] by simp
  with assms(1) t have "TrimFunc s IsSpace \<noteq> []" by (cases s) auto
  with DecodeRuneInString_take [OF n(1)] t show ?thesis by simp
qed

lemma DecodeRuneInString_TrimSpace_leading:
  assumes "list_all IsSpace (runes ws)" "msg \<noteq> []" "\<not> IsSpace (fst (DecodeRuneInString msg))"
  shows "TrimSpace (ws @ msg) \<noteq> []
     \<and> DecodeRuneInString (TrimSpace (ws @ msg)) = DecodeRuneInString msg"
  using TrimSpace_leading [OF assms(1), of msg] DecodeRuneInString_TrimSpace [OF assms(2,3)]
    DecodeRuneInString_TrimFunc [OF assms(2,3)]
  by auto

section \<open>Lowercase rule\<close>

lemma IsSpace_nonascii_category:
  "IsSpace r \<Longrightarrow> \<not> (0 \<le> r \<and> r \<le> 0x7F) \<Longrightarrow> category L r \<in> {Cc, Zs, Zl, Zp}"
  by (auto simp: category_def)

lemma IsSpace_ascii_category:
  "IsSpace r \<Longrightarrow> 0 \<le> r \<and> r \<le> 0x7F \<Longrightarrow> category L r \<in> {Cc, Zs}"
  unfolding IsSpace_def category_def ascii_category_def by (elim disjE) simp_all

lemma IsSpace_category: "IsSpace r \<Longrightarrow> category L r \<in> {Cc, Zs, Zl, Zp}"
  using IsSpace_nonascii_category [of r L] IsSpace_ascii_category [of r L]
  by (cases "0 \<le> r \<and> r \<le> 0x7F") auto

lemma cased_not_space:
  assumes "IsUpper L r \<or> IsLower L r \<or> IsDigit L r \<or> IsPunct L r"
  shows "\<not> IsSpace r"
proof
  assume "IsSpace r"
  from IsSpace_category [OF this] have "category L r \<in> {Cc, Zs, Zl, Zp}" .
  moreover from assms have "category L r \<in> {Lu, Ll, Nd, Pc, Pd, Ps, Pe, Pi, Pf, Po}"
    unfolding IsUpper_def IsLower_def IsDigit_def IsPunct_def by blast
  ultimately show False by auto
qed

lemma lower_not_upper:
  "IsLower L r \<or> IsDigit L r \<or> IsPunct L r \<Longrightarrow> \<not> IsUpper L r"
  unfolding IsUpper_def IsLower_def IsDigit_def IsPunct_def by auto

lemma CheckLowercase_unfold:
  "CheckLowercase L msg =
     (if TrimSpace msg = [] then []
      else if fst (DecodeRuneInString (TrimSpace msg)) = RuneError then []
      else if IsUpper L (fst (DecodeRuneInString (TrimSpace msg)))
        then ''log message should start with a lowercase letter''
      else [])"
  by (simp add: CheckLowercase_def Let_def)

lemma CheckLowercase_first_rune:
  assumes "list_all IsSpace (runes ws)" "msg \<noteq> []" "\<not> IsSpace (fst (DecodeRuneInString msg))"
  shows "CheckLowercase L (ws @ msg) =
     (if fst (DecodeRuneInString msg) = RuneError then []
      else if IsUpper L (fst (DecodeRuneInString msg))
        then ''log message should start with a lowercase letter''
      else [])"
  using DecodeRuneInString_TrimSpace_leading [OF assms] by (simp add: CheckLowercase_unfold)

lemma CheckLowercase_all_space:
  "list_all IsSpace (runes ws) \<Longrightarrow> CheckLowercase L ws = []"
  by (simp add: CheckLowercase_unfold TrimSpace_all_space)

lemma TrimSpace_leading_ascii:
  "list_all asciiSpace ws \<Longrightarrow> TrimSpace (ws @ msg) = TrimSpace msg"
proof (induction ws)
  case Nil
  then show ?case by simp
next
  case (Cons c ws)
  then have "asciiSpace c" by simp
  then have "(of_char c :: int) < 0x80" by (auto simp: asciiSpace_def)
  with Cons \<open>asciiSpace c\<close> show ?case by simp
qed

lemma CheckLowercase_trailing:
  assumes "msg \<noteq> []" "\<not> IsSpace (fst (DecodeRuneInString msg))"
    "fst (DecodeRuneInString msg) \<noteq> RuneError"
  shows "CheckLowercase L (msg @ u) = CheckLowercase L msg"
proof -
  have d: "DecodeRuneInString (msg @ u) = DecodeRuneInString msg"
    using DecodeRuneInString_append [OF assms(1,3)] .
  from assms(1) have ne: "msg @ u \<noteq> []" by simp
  from assms(2) have sp: "\<not> IsSpace (fst (DecodeRuneInString (msg @ u)))"
    unfolding d .
  have e: "list_all IsSpace (runes [])" by simp
  show ?thesis
    using CheckLowercase_first_rune [OF e ne sp, of L]
      CheckLowercase_first_rune [OF e assms(1,2), of L]
    unfolding d by simp
qed

text \<open>
  C5. \<open>CheckLowercase\<close> trims the message first and passes when nothing is left; it
  passes when the first rune of the rest is \<open>RuneError\<close>, which is what a rune that
  fails to decode yields; it reports the fixed message when that rune is upper-case
  (by the category of the rune, whatever its script), and passes otherwise. Leading
  ASCII white space does not change the result, and a message of white space only
  passes. Behind any leading white space \<open>ws\<close>, the first rune of the message decides:
  for every message that begins with an upper-case letter the rule reports the
  violation, and for every message that begins with a lower-case letter, a digit or a
  punctuation character it reports none. The trimming from the end never reaches into
  the first rune, so what follows a first rune that decodes does not change the result.
\<close>

theorem C5_lowercase_rule:
  "(CheckLowercase L msg =
      (if TrimSpace msg = [] then []
       else if fst (DecodeRuneInString (TrimSpace msg)) = RuneError then []
       else if IsUpper L (fst (DecodeRuneInString (TrimSpace msg)))
         then ''log message should start with a lowercase letter''
       else []))
   \<and> (list_all asciiSpace ws \<longrightarrow> CheckLowercase L (ws @ msg) = CheckLowercase L msg)
   \<and> (list_all IsSpace (runes ws) \<longrightarrow> CheckLowercase L ws = [])
   \<and> (list_all IsSpace (runes ws) \<and> msg \<noteq> [] \<and> \<not> IsSpace (fst (DecodeRuneInString msg)) \<longrightarrow>
        CheckLowercase L (ws @ msg) =
          (if fst (DecodeRuneInString msg) = RuneError then []
           else if IsUpper L (fst (DecodeRuneInString msg))
             then ''log message should start with a lowercase letter''
           else []))
   \<and> (list_all IsSpace (runes ws) \<and> msg \<noteq> [] \<and> IsUpper L (fst (DecodeRuneInString msg))
        \<and> fst (DecodeRuneInString msg) \<noteq> RuneError \<longrightarrow>
        CheckLowercase L (ws @ msg) = ''log message should start with a lowercase letter'')
   \<and> (list_all IsSpace (runes ws) \<and> msg \<noteq> []
        \<and> (IsLower L (fst (DecodeRuneInString msg))
            \<or> IsDigit L (fst (DecodeRuneInString msg))
            \<or> IsPunct L (fst (DecodeRuneInString msg))) \<longrightarrow>
        CheckLowercase L (ws @ msg) = [])
   \<and> (msg \<noteq> [] \<and> \<not> IsSpace (fst (DecodeRuneInString msg))
        \<and> fst (DecodeRuneInString msg) \<noteq> RuneError \<longrightarrow>
        CheckLowercase L (msg @ u) = CheckLowercase L msg)"
proof (intro conjI impI)
  show "CheckLowercase L msg =
      (if TrimSpace msg = [] then []
       else if fst (DecodeRuneInString (TrimSpace msg)) = RuneError then []
       else if IsUpper L (fst (DecodeRuneInString (TrimSpace msg)))
         then ''log message should start with a lowercase letter''
       else [])"
    by (rule CheckLowercase_unfold)
next
  assume "list_all asciiSpace ws"
  then show "CheckLowercase L (ws @ msg) = CheckLowercase L msg"
    by (simp add: CheckLowercase_def TrimSpace_leading_ascii)
next
  assume "list_all IsSpace (runes ws)"
  then show "CheckLowercase L ws = []" by (rule CheckLowercase_all_space)
next
  assume a: "list_all IsSpace (runes ws) \<and> msg \<noteq> []
      \<and> \<not> IsSpace (fst (DecodeRuneInString msg))"
  then show "CheckLowercase L (ws @ msg) =
          (if fst (DecodeRuneInString msg) = RuneError then []
           else if IsUpper L (fst (DecodeRuneInString msg))
             then ''log message should start with a lowercase letter''
           else [])"
    using CheckLowercase_first_rune [of ws msg L] by blast
next
  assume a: "list_all IsSpace (runes ws) \<and> msg \<noteq> [] \<and> IsUpper L (fst (DecodeRuneInString msg))
        \<and> fst (DecodeRuneInString msg) \<noteq> RuneError"
  then have "\<not> IsSpace (fst (DecodeRuneInString msg))"
    using cased_not_space by blast
  with a show "CheckLowercase L (ws @ msg) = ''log message should start with a lowercase letter''"
    by (simp add: CheckLowercase_first_rune)
next
  assume a: "list_all IsSpace (runes ws) \<and> msg \<noteq> []
        \<and> (IsLower L (fst (DecodeRuneInString msg))
            \<or> IsDigit L (fst (DecodeRuneInString msg))
            \<or> IsPunct L (fst (DecodeRuneInString msg)))"
  then have "\<not> IsSpace (fst (DecodeRuneInString msg))"
    using cased_not_space by blast
  moreover from a have "\<not> IsUpper L (fst (DecodeRuneInString msg))"
    using lower_not_upper by blast
  ultimately show "CheckLowercase L (ws @ msg) = []"
    using a by (simp add: CheckLowercase_first_rune)
next
  assume "msg \<noteq> [] \<and> \<not> IsSpace (fst (DecodeRuneInString msg))
        \<and> fst (DecodeRuneInString msg) \<noteq> RuneError"
  then show "CheckLowercase L (msg @ u) = CheckLowercase L msg"
    using CheckLowercase_trailing by blast
qed

theorem C5_lowercase_rule_witness:
  "zapusk \<noteq> [] \<and> IsUpper example_lib (fst (DecodeRuneInString zapusk))
   \<and> fst (DecodeRuneInString zapusk) \<noteq> RuneError
   \<and> CheckLowercase example_lib ('' '' @ zapusk)
       = ''log message should start with a lowercase letter''
   \<and> CheckLowercase example_lib (zapusk @ '' done '') = CheckLowercase example_lib zapusk
   \<and> IsLower example_lib (fst (DecodeRuneInString ''starting''))
   \<and> CheckLowercase example_lib ([] @ ''starting'') = []
   \<and> CheckLowercase example_lib ''  '' = []"
proof -
  have up: "list_all IsSpace (runes '' '') \<and> zapusk \<noteq> []
      \<and> IsUpper example_lib (fst (DecodeRuneInString zapusk))
      \<and> fst (DecodeRuneInString zapusk) \<noteq> RuneError"
    by code_simp
  have tr: "zapusk \<noteq> [] \<and> \<not> IsSpace (fst (DecodeRuneInString zapusk))
      \<and> fst (DecodeRuneInString zapusk) \<noteq> RuneError"
    by code_simp
  have lo: "list_all IsSpace (runes []) \<and> ''starting'' \<noteq> []
      \<and> (IsLower example_lib (fst (DecodeRuneInString ''starting''))
          \<or> IsDigit example_lib (fst (DecodeRuneInString ''starting''))
          \<or> IsPunct example_lib (fst (DecodeRuneInString ''starting'')))"
    by code_simp
  have lo': "IsLower example_lib (fst (DecodeRuneInString ''starting''))"
    by code_simp
  have sp: "list_all IsSpace (runes ''  '')"
    by code_simp
  note z = C5_lowercase_rule [of example_lib zapusk "'' ''" "'' done ''"]
  note t = C5_lowercase_rule [of example_lib "''starting''" "[]" "[]"]
  note w = C5_lowercase_rule [of example_lib "[]" "''  ''" "[]"]
  have a: "CheckLowercase example_lib ('' '' @ zapusk)
       = ''log message should start with a lowercase letter''"
    by (rule mp [OF z [THEN conjunct2, THEN conjunct2, THEN conjunct2, THEN conjunct2,
          THEN conjunct1] up])
  have b: "CheckLowercase example_lib (zapusk @ '' done '') = CheckLowercase example_lib zapusk"
    by (rule mp [OF z [THEN conjunct2, THEN conjunct2, THEN conjunct2, THEN conjunct2,
          THEN conjunct2, THEN conjunct2] tr])
  have c: "CheckLowercase example_lib ([] @ ''starting'') = []"
    by (rule mp [OF t [THEN conjunct2, THEN conjunct2, THEN conjunct2, THEN conjunct2,
          THEN conjunct2, THEN conjunct1] lo])
  have d: "CheckLowercase example_lib ''  '' = []"
    by (rule mp [OF w [THEN conjunct2, THEN conjunct2, THEN conjunct1] sp])
  from up have u1: "zapusk \<noteq> []" and u2: "IsUpper example_lib (fst (DecodeRuneInString zapusk))"
    and u3: "fst (DecodeRuneInString zapusk) \<noteq> RuneError"
    by (rule conjunct2 [THEN conjunct1], rule conjunct2 [THEN conjunct2, THEN conjunct1],
        rule conjunct2 [THEN conjunct2, THEN conjunct2])
  show ?thesis
    by (intro conjI) (rule u1 u2 u3 a b lo' c d)+
qed

section \<open>Tokens of a message\<close>



















section \<open>Sensitive keywords rule\<close>

















end
